theory Spec2Isabelle
  imports Complex_Main "HOL-Library.Word"
begin

section \<open>The datalogger sketch (datalogger.ino) as state-passing functions\<close>

text \<open>
  The sketch is one sequential program over global variables that talks to an SD card,
  two temperature sensors and a battery-backed clock. The model keeps the globals in one
  record, passes it through every function, and makes the peripherals explicit:
  \<^item> the card is a map from path to file content; every call to the card, the sensors
    and the clock is written to a call log, newest call first;
  \<^item> what a peripheral answers is read from an oracle \<open>hw\<close>, indexed by the call and
    by the number of calls logged so far, so a statement proved for every \<open>hw\<close> holds
    for every sequence of answers, faults included;
  \<^item> \<open>millis()\<close> is a 32-bit counter that \<open>delay\<close> advances.
  GPIO pin writes, Serial output, WiFi and SDK calls and the pixels of the display are
  not part of the model. Floats are idealised as reals, a NaN reading as \<open>None\<close>; no statement
  below depends on rounding.
\<close>

type_synonym u32 = "32 word"
type_synonym u8 = "8 word"

record DateTime =
  dt_year :: nat
  dt_month :: nat
  dt_day :: nat
  dt_hour :: nat
  dt_minute :: nat
  dt_second :: nat

datatype sdmode = FILE_READ | FILE_WRITE

text \<open>The calls the log records.\<close>

datatype event =
    EvSpiBegin
  | EvSdBegin
  | EvSdType
  | EvSdEnd
  | EvSpiEnd
  | EvExists string
  | EvOpenDir string
  | EvOpen string sdmode
  | EvRemove string
  | EvRename string string
  | EvPrintln string string
  | EvFlush
  | EvClose
  | EvShtBegin nat
  | EvShtReadTemperature
  | EvShtReadHumidity
  | EvDsRequestTemperatures
  | EvDsGetTemp
  | EvDsGetResolution
  | EvDsSetWait bool
  | EvRtcNow
  | EvDisplay
  | EvDisplayOn
  | EvReadButton
  | EvReadWake

text \<open>
  The peripherals and the C library, as oracles. \<open>sd_fault hw ev n\<close> says that the card
  refuses call \<open>ev\<close> when it is call number \<open>n\<close>. \<open>localtime\<close> and \<open>gmtime\<close> are
  libc's (the TZ rule is set in \<open>setup\<close>), \<open>fmt_float\<close> is printf's \<open>%.Nf\<close>.
  \<open>button_low hw n\<close> says that \<open>digitalRead(PIN_BUTTON) == LOW\<close> holds when the read is call
  number \<open>n\<close>, \<open>wake_low\<close> the same for \<open>PIN_WAKE_RX\<close>.
\<close>

record hw =
  sd_fault :: "event \<Rightarrow> nat \<Rightarrow> bool"
  sht_begin :: "nat \<Rightarrow> nat \<Rightarrow> bool"
  sht_temperature :: "nat \<Rightarrow> real option"
  sht_humidity :: "nat \<Rightarrow> real option"
  ds_temp :: "nat \<Rightarrow> real"
  ds_resolution :: "nat \<Rightarrow> int"
  rtc_unixtime :: "nat \<Rightarrow> u32"
  localtime :: "u32 \<Rightarrow> DateTime"
  gmtime :: "u32 \<Rightarrow> DateTime"
  fmt_float :: "nat \<Rightarrow> real \<Rightarrow> string"
  button_low :: "nat \<Rightarrow> bool"
  wake_low :: "nat \<Rightarrow> bool"

text \<open>
  The globals of the sketch (lines 52-126), the struct \<open>data\<close> flattened into fields
  \<open>data_ts\<close>, \<open>data_t\<close>, ..., and the world: the clock, the card and the call log.
\<close>

record state =
  sdAvailable :: bool
  shtOK :: bool
  rtcOK :: bool
  ds18b20OK :: bool
  displayOn :: bool
  isMeasuring :: bool
  displayUpdateCount :: u32
  lastDisplayUpdate :: u32
  sht_retry_counter :: u32
  logCount :: u32
  lastLogCountUpdate :: u32
  lastMeasureUnix :: u32
  interval :: u32
  historicalData_valid :: bool
  data_ts :: DateTime
  data_t :: real
  data_h :: real
  data_td :: real
  data_tWater :: real
  data_shtValid :: bool
  data_waterTempValid :: bool
  dsConvPending :: bool
  dsConvReadyAt :: u32
  sdFailCount :: u8
  lastSDRetry :: u32
  isBootPhase :: bool
  millis :: u32
  files :: "string \<Rightarrow> string option"
  hwlog :: "(event \<times> u32) list"

definition SHT_RETRY_INTERVAL :: u32 where
  "SHT_RETRY_INTERVAL = 10"

definition INTERVAL_NO_SD :: u32 where
  "INTERVAL_NO_SD = 60"

definition INTERVAL_SD :: u32 where
  "INTERVAL_SD = 240"

definition CSV_HEADER :: string where
  "CSV_HEADER = ''ts_utc,epoch_ms,timestamp_local,temperature_C,humidity_pct,dewpoint_C,water_temp_C,sht_ok,water_ok''"

definition DS18B20_ERROR_DISCONNECTED :: real where
  "DS18B20_ERROR_DISCONNECTED = - 127"

definition DS18B20_ERROR_POWER_ON_RESET :: real where
  "DS18B20_ERROR_POWER_ON_RESET = 85"

definition SD_MAX_RETRIES :: u8 where
  "SD_MAX_RETRIES = 5"

definition SD_RETRY_INTERVAL :: u32 where
  "SD_RETRY_INTERVAL = 60000"

definition data_csv :: string where
  "data_csv = ''/data.csv''"

definition CRLF :: string where
  "CRLF = [CHR 0x0D, CHR 0x0A]"

subsection \<open>Primitive calls\<close>

definition tick :: "state \<Rightarrow> nat" where
  "tick s = length (hwlog s)"

text \<open>
  A call is logged together with the value logCount has when the call is made, so that
  the order of the calls and of the updates of the counter can be read off the log.
\<close>

definition emit :: "event \<Rightarrow> state \<Rightarrow> state" where
  "emit ev s = s\<lparr>hwlog := (ev, logCount s) # hwlog s\<rparr>"

abbreviation calls :: "state \<Rightarrow> event list" where
  "calls s \<equiv> map fst (hwlog s)"

definition refused :: "hw \<Rightarrow> event \<Rightarrow> state \<Rightarrow> bool" where
  "refused e ev s = sd_fault e ev (tick s)"

definition delay :: "u32 \<Rightarrow> state \<Rightarrow> state" where
  "delay ms s = s\<lparr>millis := millis s + ms\<rparr>"

text \<open>\<open>rtc.now().unixtime()\<close>\<close>

definition RTC_now :: "hw \<Rightarrow> state \<Rightarrow> u32 \<times> state" where
  "RTC_now e s = (rtc_unixtime e (tick s), emit EvRtcNow s)"



subsection \<open>The SD library\<close>

text \<open>
  The card keeps what was written to it. A call the card refuses (\<open>refused\<close>) fails and
  changes nothing: \<open>exists\<close> then answers false, \<open>open\<close> returns no file, \<open>println\<close>
  writes nothing and returns 0. A \<open>println\<close> that is not refused appends the text and the
  line end and returns their length. \<open>FILE_WRITE\<close> is the ESP8266 core's
  create-and-append mode. A file opened for reading is handed over as its content.
\<close>

definition SD_begin :: "hw \<Rightarrow> state \<Rightarrow> bool \<times> state" where
  "SD_begin e s = (\<not> refused e EvSdBegin s, emit EvSdBegin s)"

text \<open>\<open>SD.type() != 0\<close>\<close>

definition SD_type :: "hw \<Rightarrow> state \<Rightarrow> bool \<times> state" where
  "SD_type e s = (\<not> refused e EvSdType s, emit EvSdType s)"

definition SD_end :: "state \<Rightarrow> state" where
  "SD_end s = emit EvSdEnd s"

definition SPI_end :: "state \<Rightarrow> state" where
  "SPI_end s = emit EvSpiEnd s"

definition SD_exists :: "hw \<Rightarrow> string \<Rightarrow> state \<Rightarrow> bool \<times> state" where
  "SD_exists e p s = (files s p \<noteq> None \<and> \<not> refused e (EvExists p) s, emit (EvExists p) s)"

definition SD_open_dir :: "hw \<Rightarrow> string \<Rightarrow> state \<Rightarrow> bool \<times> state" where
  "SD_open_dir e p s = (\<not> refused e (EvOpenDir p) s, emit (EvOpenDir p) s)"

definition SD_open_read :: "hw \<Rightarrow> string \<Rightarrow> state \<Rightarrow> string option \<times> state" where
  "SD_open_read e p s =
     ((if refused e (EvOpen p FILE_READ) s then None else files s p), emit (EvOpen p FILE_READ) s)"

definition SD_open_write :: "hw \<Rightarrow> string \<Rightarrow> state \<Rightarrow> bool \<times> state" where
  "SD_open_write e p s =
     (if refused e (EvOpen p FILE_WRITE) s then (False, emit (EvOpen p FILE_WRITE) s)
      else (True, emit (EvOpen p FILE_WRITE)
              (s\<lparr>files := (files s)(p \<mapsto> (case files s p of None \<Rightarrow> [] | Some c \<Rightarrow> c))\<rparr>)))"

definition F_println :: "hw \<Rightarrow> string \<Rightarrow> string \<Rightarrow> state \<Rightarrow> nat \<times> state" where
  "F_println e p txt s =
     (case files s p of
        None \<Rightarrow> (0, emit (EvPrintln p txt) s)
      | Some c \<Rightarrow>
          if refused e (EvPrintln p txt) s then (0, emit (EvPrintln p txt) s)
          else (length txt + 2,
                emit (EvPrintln p txt) (s\<lparr>files := (files s)(p \<mapsto> c @ txt @ CRLF)\<rparr>)))"

definition F_flush :: "state \<Rightarrow> state" where
  "F_flush s = emit EvFlush s"

definition F_close :: "state \<Rightarrow> state" where
  "F_close s = emit EvClose s"

definition file_size :: "string \<Rightarrow> u32" where
  "file_size c = of_nat (length c)"

definition SD_remove :: "hw \<Rightarrow> string \<Rightarrow> state \<Rightarrow> bool \<times> state" where
  "SD_remove e p s =
     (case files s p of
        None \<Rightarrow> (False, emit (EvRemove p) s)
      | Some c \<Rightarrow>
          if refused e (EvRemove p) s then (False, emit (EvRemove p) s)
          else (True, emit (EvRemove p) (s\<lparr>files := (files s)(p := None)\<rparr>)))"

definition SD_rename :: "hw \<Rightarrow> string \<Rightarrow> string \<Rightarrow> state \<Rightarrow> bool \<times> state" where
  "SD_rename e p q s =
     (case files s p of
        None \<Rightarrow> (False, emit (EvRename p q) s)
      | Some c \<Rightarrow>
          if refused e (EvRename p q) s \<or> files s q \<noteq> None then (False, emit (EvRename p q) s)
          else (True, emit (EvRename p q) (s\<lparr>files := (files s)(p := None, q \<mapsto> c)\<rparr>)))"

subsection \<open>forceEndSD (lines 163-178)\<close>

definition forceEndSD :: "state \<Rightarrow> state" where
  "forceEndSD s = delay 10 (SPI_end (delay 10 (delay 50 (SD_end s))))"

subsection \<open>endSD (lines 180-190)\<close>


subsection \<open>reinitSD (lines 192-344)\<close>

text \<open>
  The loop \<open>for (attempt = 0; attempt < 3; attempt++) { fileExists = SD.exists(..); if
  (fileExists) break; delay(50); }\<close> of lines 246-251 and 563-568; the number is that of
  the attempts left.
\<close>

fun probe_exists :: "hw \<Rightarrow> nat \<Rightarrow> state \<Rightarrow> bool \<times> state" where
  "probe_exists e 0 s = (False, s)"
| "probe_exists e (Suc n) s =
     (let (fileExists, s1) = SD_exists e data_csv s
      in if fileExists then (True, s1) else probe_exists e n (delay 50 s1))"

text \<open>The verification loop of lines 280-295 and 712-726, again by attempts left.\<close>

fun verify_created :: "hw \<Rightarrow> nat \<Rightarrow> state \<Rightarrow> bool \<times> state" where
  "verify_created e 0 s = (False, s)"
| "verify_created e (Suc n) s =
     (let (ex, s1) = SD_exists e data_csv s
      in if ex then
           (let (testFile, s2) = SD_open_read e data_csv s1
            in case testFile of
                 None \<Rightarrow> verify_created e n (delay 100 s2)
               | Some c \<Rightarrow>
                   if file_size c > 0 then (True, F_close s2)
                   else verify_created e n (delay 100 (F_close s2)))
         else verify_created e n (delay 100 s1))"

text \<open>
  \<open>f.println(CSV_HEADER); f.flush(); delay(50); f.close(); delay(d);\<close> with \<open>d\<close> 200 in
  reinitSD and rotateLogFile and 100 in logData.
\<close>

definition write_header :: "hw \<Rightarrow> u32 \<Rightarrow> state \<Rightarrow> nat \<times> state" where
  "write_header e d s =
     (let (written, s1) = F_println e data_csv CSV_HEADER s
      in (written, delay d (F_close (delay 50 (F_flush s1)))))"

text \<open>A failed attempt: \<open>sdFailCount++; SD.end(); continue;\<close>\<close>

definition reinit_fail :: "state \<Rightarrow> state" where
  "reinit_fail s = SD_end (s\<lparr>sdFailCount := sdFailCount s + 1\<rparr>)"

text \<open>Lines 253-302: data.csv was not found.\<close>

definition reinit_create :: "hw \<Rightarrow> state \<Rightarrow> bool \<times> state" where
  "reinit_create e s =
     (let (root, s1) = SD_open_dir e ''/'' s
      in if \<not> root then (False, reinit_fail s1)
         else
           (let s2 = delay 50 (F_close s1);
                (f, s3) = SD_open_write e data_csv s2
            in if \<not> f then (False, reinit_fail s3)
               else
                 (let (written, s4) = write_header e 200 s3;
                      (verified, s5) = verify_created e 3 s4
                  in if \<not> verified then (False, reinit_fail s5) else (True, s5))))"

text \<open>Lines 304-332: data.csv was found.\<close>

definition reinit_existing :: "hw \<Rightarrow> state \<Rightarrow> bool \<times> state" where
  "reinit_existing e s =
     (let (f, s1) = SD_open_read e data_csv s
      in case f of
           None \<Rightarrow>
             (let s2 = delay 100 (snd (SD_remove e data_csv s1));
                  (newFile, s3) = SD_open_write e data_csv s2
              in if \<not> newFile then (False, reinit_fail s3)
                 else (True, snd (write_header e 200 s3)))
         | Some c \<Rightarrow> (True, F_close s1))"

text \<open>One pass through the body of the retry loop, lines 206-339; False is \<open>continue\<close>.\<close>

definition reinit_attempt :: "hw \<Rightarrow> state \<Rightarrow> bool \<times> state" where
  "reinit_attempt e s =
     (let s1 = s\<lparr>lastSDRetry := millis s\<rparr>;
          s2 = delay 10 (delay 50 (emit EvSpiBegin (delay 10 (SPI_end (delay 50 s1)))));
          (begun, s3) = SD_begin e s2
      in if \<not> begun then (False, s3\<lparr>sdFailCount := sdFailCount s3 + 1\<rparr>)
         else
           (let (card, s4) = SD_type e (delay 200 s3)
            in if \<not> card then (False, reinit_fail s4)
               else
                 (let (fileExists, s5) = probe_exists e 3 s4;
                      (ok, s6) = (if \<not> fileExists then reinit_create e s5 else reinit_existing e s5)
                  in if \<not> ok then (False, s6)
                     else (True, s6\<lparr>sdAvailable := True, sdFailCount := 0, interval := INTERVAL_SD\<rparr>))))"

function reinit_loop :: "hw \<Rightarrow> nat \<Rightarrow> nat \<Rightarrow> state \<Rightarrow> bool \<times> state" where
  "reinit_loop e retryAttempt maxBootRetries s =
     (if retryAttempt < maxBootRetries then
        (let s1 = (if retryAttempt > 0 then delay 500 s else s);
             (ok, s2) = reinit_attempt e s1
         in if ok then (True, s2) else reinit_loop e (retryAttempt + 1) maxBootRetries s2)
      else (False, s))"
  by pat_completeness auto
termination
  by (relation "measure (\<lambda>(e, retryAttempt, maxBootRetries, s). maxBootRetries - retryAttempt)") auto

declare reinit_loop.simps [simp del]

definition reinitSD :: "hw \<Rightarrow> state \<Rightarrow> bool \<times> state" where
  "reinitSD e s =
     (if \<not> isBootPhase s \<and> sdFailCount s > 0 \<and> millis s - lastSDRetry s < SD_RETRY_INTERVAL
      then (False, s)
      else reinit_loop e 0 (if isBootPhase s then 3 else 1) s)"

subsection \<open>countLogEntries (lines 346-372)\<close>

text \<open>The \<open>while (f.available())\<close> loop over the bytes of the file.\<close>

fun count_rows :: "string \<Rightarrow> bool \<Rightarrow> u32 \<Rightarrow> u32" where
  "count_rows [] isHeader count = count"
| "count_rows (c # cs) isHeader count =
     (if c = CHR 0x0A then
        (if \<not> isHeader then count_rows cs isHeader (count + 1) else count_rows cs False count)
      else count_rows cs isHeader count)"

definition countLogEntries :: "hw \<Rightarrow> state \<Rightarrow> u32 \<times> state" where
  "countLogEntries e s =
     (if \<not> sdAvailable s then (0, s)
      else
        (let (f, s1) = SD_open_read e data_csv s
         in case f of
              None \<Rightarrow> (0, s1)
            | Some c \<Rightarrow> (count_rows c True 0, F_close s1)))"

subsection \<open>readLastMeasurements (lines 382-480)\<close>




subsection \<open>verifyLastWrite (lines 491-541)\<close>

text \<open>The five attempts to open the file, lines 499-506, by attempts left.\<close>

fun verify_open :: "hw \<Rightarrow> nat \<Rightarrow> state \<Rightarrow> string option \<times> state" where
  "verify_open e 0 s = (None, s)"
| "verify_open e (Suc n) s =
     (let (f, s1) = SD_open_read e data_csv s
      in case f of
           Some c \<Rightarrow> (Some c, s1)
         | None \<Rightarrow> verify_open e n (delay 150 s1))"

definition verifyLastWrite :: "hw \<Rightarrow> state \<Rightarrow> bool \<times> state" where
  "verifyLastWrite e s =
     (if \<not> sdAvailable s then (False, s)
      else
        (let (f, s1) = verify_open e 5 s
         in case f of
              None \<Rightarrow> (False, (forceEndSD s1)\<lparr>sdAvailable := False\<rparr>)
            | Some c \<Rightarrow>
                (let size = file_size c;
                     s2 = delay 50 (F_close s1)
                 in if size < 10 then (False, s2)
                    else
                      (let (actualCount, s3) = countLogEntries e s2
                       in if actualCount \<ge> logCount s3 then (True, s3\<lparr>logCount := actualCount\<rparr>)
                          else (False, s3\<lparr>logCount := actualCount\<rparr>)))))"

subsection \<open>logData (lines 543-669)\<close>

text \<open>printf's \<open>%lu\<close> and \<open>%0wd\<close> for numbers that are not negative.\<close>

function show_nat :: "nat \<Rightarrow> string" where
  "show_nat n = (if n < 10 then [char_of (48 + n)] else show_nat (n div 10) @ [char_of (48 + n mod 10)])"
  by pat_completeness auto
termination
  by (relation "measure id") auto

declare show_nat.simps [simp del]

definition pad0 :: "nat \<Rightarrow> nat \<Rightarrow> string" where
  "pad0 w n = replicate (w - length (show_nat n)) (CHR ''0'') @ show_nat n"

text \<open>
  The row of lines 607-644. \<open>snprintf\<close> into a buffer of n bytes keeps n - 1 characters.
\<close>

definition format_row :: "hw \<Rightarrow> u32 \<Rightarrow> state \<Rightarrow> string" where
  "format_row e utcNow s =
     (let tmg = gmtime e utcNow;
          ts_utc = take 24 (pad0 4 (dt_year tmg) @ ''-'' @ pad0 2 (dt_month tmg) @ ''-'' @
                     pad0 2 (dt_day tmg) @ ''T'' @ pad0 2 (dt_hour tmg) @ '':'' @
                     pad0 2 (dt_minute tmg) @ '':'' @ pad0 2 (dt_second tmg) @ ''Z'');
          epoch_sec = show_nat (unat utcNow);
          ts_local = take 19 (pad0 4 (dt_year (data_ts s)) @ ''-'' @ pad0 2 (dt_month (data_ts s)) @ ''-'' @
                     pad0 2 (dt_day (data_ts s)) @ '' '' @ pad0 2 (dt_hour (data_ts s)) @ '':'' @
                     pad0 2 (dt_minute (data_ts s)) @ '':'' @ pad0 2 (dt_second (data_ts s)));
          tempStr = (if data_shtValid s then take 15 (fmt_float e 2 (data_t s)) else []);
          humStr = (if data_shtValid s then take 15 (fmt_float e 1 (data_h s)) else []);
          dewStr = (if data_shtValid s then take 15 (fmt_float e 2 (data_td s)) else []);
          waterStr = (if data_waterTempValid s then take 15 (fmt_float e 2 (data_tWater s)) else []);
          sht_ok = (if data_shtValid s then ''1'' else ''0'');
          water_ok = (if data_waterTempValid s then ''1'' else ''0'')
      in take 219 (ts_utc @ '','' @ epoch_sec @ ''000,'' @ ts_local @ '','' @ tempStr @ '','' @
                   humStr @ '','' @ dewStr @ '','' @ waterStr @ '','' @ sht_ok @ '','' @ water_ok))"

text \<open>Lines 573-595: data.csv has disappeared and is created again.\<close>

definition logData_recreate :: "hw \<Rightarrow> state \<Rightarrow> bool \<times> state" where
  "logData_recreate e s =
     (let (f, s1) = SD_open_write e data_csv s
      in if \<not> f then (False, s1\<lparr>sdAvailable := False\<rparr>)
         else
           (let (written, s2) = write_header e 100 s1;
                (ex, s3) = SD_exists e data_csv s2
            in if ex then (True, s3\<lparr>logCount := 0\<rparr>)
               else (False, s3\<lparr>sdAvailable := False\<rparr>)))"

text \<open>
  Lines 598-664: the row is written. True is the \<open>return\<close> of line 664, False a
  \<open>continue\<close>.
\<close>

definition logData_append :: "hw \<Rightarrow> state \<Rightarrow> bool \<times> state" where
  "logData_append e s =
     (let (f, s1) = SD_open_write e data_csv s
      in if \<not> f then (False, s1\<lparr>sdAvailable := False\<rparr>)
         else
           (let (utcNow, s2) = RTC_now e s1;
                buf = format_row e utcNow s2;
                (written, s3) = F_println e data_csv buf s2;
                s4 = delay 200 (F_close (delay 50 (F_flush s3)))
            in if written = 0 then (False, s4\<lparr>sdAvailable := False\<rparr>)
               else (True, s4\<lparr>logCount := logCount s4 + 1\<rparr>)))"

text \<open>Lines 562-664: the part of the loop body that runs once the card is available.\<close>

definition logData_write :: "hw \<Rightarrow> state \<Rightarrow> bool \<times> state" where
  "logData_write e s =
     (let (fileExists, s1) = probe_exists e 3 s
      in if \<not> fileExists then
           (let (ok, s2) = logData_recreate e s1
            in if ok then logData_append e s2 else (False, s2))
         else logData_append e s1)"

text \<open>How one pass through the loop body ends: at line 664, at a \<open>continue\<close>, or at line 558.\<close>

datatype log_step = Committed | Retry | GiveUp

definition logData_attempt :: "hw \<Rightarrow> state \<Rightarrow> log_step \<times> state" where
  "logData_attempt e s =
     (if \<not> sdAvailable s then
        (if sdFailCount s < SD_MAX_RETRIES then
           (let (ok, s1) = reinitSD e s
            in if \<not> ok then (Retry, s1)
               else (let (committed, s2) = logData_write e s1
                     in ((if committed then Committed else Retry), s2)))
         else (GiveUp, s\<lparr>interval := INTERVAL_NO_SD\<rparr>))
      else (let (committed, s2) = logData_write e s
            in ((if committed then Committed else Retry), s2)))"

definition MAX_LOG_RETRIES :: nat where
  "MAX_LOG_RETRIES = 2"

function logData_loop :: "hw \<Rightarrow> nat \<Rightarrow> state \<Rightarrow> bool \<times> state" where
  "logData_loop e retryCount s =
     (if retryCount < MAX_LOG_RETRIES then
        (case logData_attempt e s of
           (Committed, s1) \<Rightarrow> (True, s1)
         | (GiveUp, s1) \<Rightarrow> (False, s1)
         | (Retry, s1) \<Rightarrow> logData_loop e (retryCount + 1) s1)
      else (False, s\<lparr>interval := INTERVAL_NO_SD\<rparr>))"
  by pat_completeness auto
termination
  by (relation "measure (\<lambda>(e, retryCount, s). MAX_LOG_RETRIES - retryCount)") auto

declare logData_loop.simps [simp del]

text \<open>
  logData returns nothing; the Boolean of the model says whether it left through the
  \<open>return\<close> of line 664, that is, whether a row was committed.
\<close>

definition logData :: "hw \<Rightarrow> state \<Rightarrow> bool \<times> state" where
  "logData e s = logData_loop e 0 s"

subsection \<open>rotateLogFile (lines 671-740)\<close>

definition unixToLocal :: "hw \<Rightarrow> u32 \<Rightarrow> DateTime" where
  "unixToLocal e t = localtime e t"

definition nowLocalFromRTC :: "hw \<Rightarrow> state \<Rightarrow> DateTime \<times> state" where
  "nowLocalFromRTC e s = (let (u, s1) = RTC_now e s in (unixToLocal e u, s1))"

definition rotation_name :: "DateTime \<Rightarrow> string" where
  "rotation_name ts =
     take 39 (''/data_'' @ pad0 4 (dt_year ts) @ pad0 2 (dt_month ts) @ pad0 2 (dt_day ts) @ ''_'' @
              pad0 2 (dt_hour ts) @ pad0 2 (dt_minute ts) @ pad0 2 (dt_second ts) @ ''.csv'')"

text \<open>Lines 683-697: the old file is moved away, or removed when it cannot be moved.\<close>

definition rotate_archive :: "hw \<Rightarrow> string \<Rightarrow> state \<Rightarrow> state" where
  "rotate_archive e newName s =
     (let (ex, s1) = SD_exists e data_csv s
      in if ex then
           (let (taken, s2) = SD_exists e newName s1;
                s3 = (if taken then delay 100 (snd (SD_remove e newName s2)) else s2);
                (renamed, s4) = SD_rename e data_csv newName s3
            in if \<not> renamed then delay 100 (snd (SD_remove e data_csv s4))
               else delay 100 s4)
         else s1)"

definition rotateLogFile :: "hw \<Rightarrow> state \<Rightarrow> bool \<times> state" where
  "rotateLogFile e s =
     (let (avail, s1) = (if \<not> sdAvailable s then reinitSD e s else (True, s))
      in if \<not> avail then (False, s1)
         else
           (let (ts, s2) = nowLocalFromRTC e s1;
                s3 = rotate_archive e (rotation_name ts) s2;
                (f, s4) = SD_open_write e data_csv s3
            in if \<not> f then (False, s4\<lparr>sdAvailable := False\<rparr>)
               else
                 (let (written, s5) = write_header e 200 s4;
                      (verified, s6) = verify_created e 3 s5
                  in if \<not> verified then (False, s6\<lparr>sdAvailable := False\<rparr>)
                     else (True, s6\<lparr>logCount := 0, lastLogCountUpdate := millis s6,
                                      historicalData_valid := False\<rparr>))))"

subsection \<open>The sensors\<close>

definition dewpoint :: "real \<Rightarrow> real \<Rightarrow> real" where
  "dewpoint t h =
     (let b = 17.62; c = 243.12;
          g = ln (h / 100) + (b * t) / (c + t)
      in (c * g) / (b - g))"

definition SHT_begin :: "hw \<Rightarrow> nat \<Rightarrow> state \<Rightarrow> bool \<times> state" where
  "SHT_begin e addr s = (sht_begin e addr (tick s), emit (EvShtBegin addr) s)"

text \<open>\<open>shtOK = sht31.begin(0x44) || sht31.begin(0x45);\<close>\<close>

definition probeSHT :: "hw \<Rightarrow> state \<Rightarrow> state" where
  "probeSHT e s =
     (let (first, s1) = SHT_begin e 0x44 s
      in if first then s1\<lparr>shtOK := True\<rparr>
         else (let (second, s2) = SHT_begin e 0x45 s1 in s2\<lparr>shtOK := second\<rparr>))"

text \<open>Lines 890-902 and 943-953, the same in both measuring functions.\<close>

definition readSHT :: "hw \<Rightarrow> state \<Rightarrow> state" where
  "readSHT e s =
     (let t = sht_temperature e (tick s);
          s1 = emit EvShtReadTemperature s;
          h = sht_humidity e (tick s1);
          s2 = emit EvShtReadHumidity s1
      in case (t, h) of
           (Some tv, Some hv) \<Rightarrow>
             s2\<lparr>data_t := tv, data_h := hv, data_td := dewpoint tv hv, data_shtValid := True\<rparr>
         | _ \<Rightarrow> s2\<lparr>shtOK := False\<rparr>)"

definition DS_requestTemperatures :: "state \<Rightarrow> state" where
  "DS_requestTemperatures s = emit EvDsRequestTemperatures s"

definition DS_getTempCByIndex :: "hw \<Rightarrow> state \<Rightarrow> real \<times> state" where
  "DS_getTempCByIndex e s = (ds_temp e (tick s), emit EvDsGetTemp s)"

definition DS_getResolution :: "hw \<Rightarrow> state \<Rightarrow> int \<times> state" where
  "DS_getResolution e s = (ds_resolution e (tick s), emit EvDsGetResolution s)"

definition DS_setWaitForConversion :: "bool \<Rightarrow> state \<Rightarrow> state" where
  "DS_setWaitForConversion b s = emit (EvDsSetWait b) s"

subsection \<open>displayOnFunc (lines 754-769)\<close>


subsection \<open>updateDisplay (lines 771-869)\<close>

text \<open>Lines 775-787: a pending conversion is read once its time has come.\<close>

definition updateDisplay_poll :: "hw \<Rightarrow> state \<Rightarrow> state" where
  "updateDisplay_poll e s =
     (if dsConvPending s \<and> millis s \<ge> dsConvReadyAt s then
        (let (tWater, s1) = DS_getTempCByIndex e s;
             s2 = (if tWater \<noteq> DS18B20_ERROR_DISCONNECTED \<and> tWater \<noteq> DS18B20_ERROR_POWER_ON_RESET
                   then s1\<lparr>data_tWater := tWater, data_waterTempValid := True\<rparr>
                   else s1\<lparr>ds18b20OK := False\<rparr>)
         in s2\<lparr>dsConvPending := False\<rparr>)
      else s)"

text \<open>The drawing of lines 789-867 reads the clock and is one call \<open>EvDisplay\<close>.\<close>

definition updateDisplay :: "hw \<Rightarrow> state \<Rightarrow> state" where
  "updateDisplay e s =
     (if \<not> displayOn s then s
      else
        (let s1 = updateDisplay_poll e s;
             (nowLocal, s2) = nowLocalFromRTC e s1;
             s3 = emit EvDisplay s2
         in s3\<lparr>displayUpdateCount := displayUpdateCount s3 + 1\<rparr>))"

subsection \<open>measureAndLog (lines 875-930)\<close>

text \<open>Lines 905-917: the blocking read of the DS18B20.\<close>

definition measureAndLog_water :: "hw \<Rightarrow> state \<Rightarrow> state" where
  "measureAndLog_water e s =
     (if ds18b20OK s then
        (let (tWater, s1) = DS_getTempCByIndex e (DS_requestTemperatures s)
         in if tWater \<noteq> DS18B20_ERROR_DISCONNECTED \<and> tWater \<noteq> DS18B20_ERROR_POWER_ON_RESET
            then s1\<lparr>data_tWater := tWater, data_waterTempValid := True\<rparr>
            else s1\<lparr>ds18b20OK := False\<rparr>)
      else s)"

text \<open>\<open>DateTime(2023, 1, 1, 0, 0, 0)\<close>\<close>

definition placeholder_ts :: DateTime where
  "placeholder_ts = \<lparr>dt_year = 2023, dt_month = 1, dt_day = 1, dt_hour = 0, dt_minute = 0, dt_second = 0\<rparr>"

definition measureAndLog :: "hw \<Rightarrow> state \<Rightarrow> state" where
  "measureAndLog e s =
     (let s1 = s\<lparr>isMeasuring := True, data_shtValid := False, data_waterTempValid := False\<rparr>;
          s2 = s1\<lparr>sht_retry_counter := sht_retry_counter s1 + 1\<rparr>;
          s3 = (if \<not> shtOK s2 \<and> sht_retry_counter s2 mod SHT_RETRY_INTERVAL = 0
                then probeSHT e s2 else s2);
          s4 = (if shtOK s3 then readSHT e s3 else s3);
          s5 = measureAndLog_water e s4;
          (nowUnix, s6) = (if rtcOK s5 then RTC_now e s5 else (0, s5));
          s7 = s6\<lparr>data_ts := (if rtcOK s6 then unixToLocal e nowUnix else placeholder_ts)\<rparr>;
          s8 = (if sdAvailable s7 then snd (verifyLastWrite e (snd (logData e s7))) else s7)
      in s8\<lparr>lastMeasureUnix := nowUnix, isMeasuring := False\<rparr>)"

subsection \<open>measureDisplay (lines 932-972)\<close>

text \<open>Lines 956-968: the conversion of the DS18B20 is started and left pending.\<close>

definition measureDisplay_water :: "hw \<Rightarrow> state \<Rightarrow> state" where
  "measureDisplay_water e s =
     (if ds18b20OK s then
        (let s1 = s\<lparr>dsConvPending := True\<rparr>;
             (res, s2) = DS_getResolution e s1;
             convMs = (if res = 9 then 94 else if res = 10 then 188 else if res = 11 then 375 else 750);
             s3 = DS_requestTemperatures (DS_setWaitForConversion False s2)
         in s3\<lparr>dsConvReadyAt := millis s3 + convMs\<rparr>)
      else s)"

definition measureDisplay :: "hw \<Rightarrow> state \<Rightarrow> state" where
  "measureDisplay e s =
     (let s1 = s\<lparr>data_shtValid := False, data_waterTempValid := False\<rparr>;
          s2 = (if \<not> shtOK s1 then probeSHT e s1 else s1);
          s3 = (if shtOK s2 then readSHT e s2 else s2);
          s4 = measureDisplay_water e s3;
          (nowUnix, s5) = RTC_now e s4
      in s5\<lparr>data_ts := unixToLocal e nowUnix\<rparr>)"

subsection \<open>enterLightSleep: the pending conversion is resolved (lines 1103-1119)\<close>

text \<open>Lines 1107-1115, one pass of the waiting loop before its \<open>delay(10)\<close>.\<close>

definition drain_poll :: "hw \<Rightarrow> state \<Rightarrow> state" where
  "drain_poll e s =
     (if 0 \<le> sint (millis s - dsConvReadyAt s) then
        (let (tWater, s1) = DS_getTempCByIndex e s;
             s2 = (if tWater \<noteq> DS18B20_ERROR_DISCONNECTED \<and> tWater \<noteq> DS18B20_ERROR_POWER_ON_RESET
                   then s1\<lparr>data_tWater := tWater, data_waterTempValid := True\<rparr>
                   else s1)
         in s2\<lparr>dsConvPending := False\<rparr>)
      else s)"

function drain_loop :: "hw \<Rightarrow> u32 \<Rightarrow> state \<Rightarrow> state" where
  "drain_loop e waitStart s =
     (if dsConvPending s \<and> millis s - waitStart < 2000
      then drain_loop e waitStart (delay 10 (drain_poll e s))
      else s)"
  by pat_completeness auto

termination
proof (relation "measure (\<lambda>(e, w, s). 2000 - unat (millis s - w))")
  show "wf (measure (\<lambda>(e, w, s). 2000 - unat (millis s - w)))" by simp
next
  fix e :: hw and waitStart :: u32 and s :: state
  assume a: "dsConvPending s \<and> millis s - waitStart < 2000"
  then have b: "unat (millis s - waitStart) < 2000" by (simp add: word_less_nat_alt)
  have m: "millis (drain_poll e s) = millis s"
    by (simp add: drain_poll_def DS_getTempCByIndex_def emit_def Let_def)
  have e: "millis s + 10 - waitStart = (millis s - waitStart) + 10" by simp
  have "unat ((millis s - waitStart) + 10) = unat (millis s - waitStart) + unat (10 :: u32)"
    using b by (subst unat_add_lem [symmetric]) simp
  then have "unat (millis s + 10 - waitStart) = unat (millis s - waitStart) + 10"
    by (simp only: e) simp
  then show "((e, waitStart, delay 10 (drain_poll e s)), (e, waitStart, s))
      \<in> measure (\<lambda>(e, w, s). 2000 - unat (millis s - w))"
    using b by (simp add: delay_def m)
qed

declare drain_loop.simps [simp del]

definition enterLightSleep_resolve :: "hw \<Rightarrow> state \<Rightarrow> state" where
  "enterLightSleep_resolve e s =
     (if dsConvPending s then (drain_loop e (millis s) s)\<lparr>dsConvPending := False\<rparr> else s)"

subsection \<open>enterLightSleep: a measurement in progress is waited for (lines 1121-1124)\<close>



subsection \<open>enterLightSleep: the sleep duration (lines 1126-1139)\<close>

definition MAX_SLEEP_SEC :: u32 where
  "MAX_SLEEP_SEC = 268"

definition sleep_remaining :: "hw \<Rightarrow> state \<Rightarrow> u32 \<times> state" where
  "sleep_remaining e s =
     (let remaining0 = interval s;
          (remaining1, s1) =
            (if rtcOK s then
               (let (nowUnix, s') = RTC_now e s;
                    elapsed = (if nowUnix \<ge> lastMeasureUnix s' then nowUnix - lastMeasureUnix s' else 0)
                in ((if elapsed < interval s' then interval s' - elapsed else 1), s'))
             else (remaining0, s));
          remaining2 = (if remaining1 > MAX_SLEEP_SEC then MAX_SLEEP_SEC else remaining1);
          remaining3 = (if remaining2 = 0 then 1 else remaining2)
      in (remaining3, s1))"

subsection \<open>enterLightSleep: the sleep and the wake-up by the button (lines 1141-1212)\<close>







subsection \<open>Reading the call log\<close>

text \<open>
  A re-probe of the SHT3x starts with \<open>sht31.begin(0x44)\<close>; \<open>sht_probes\<close> counts these
  calls in a log.
\<close>

fun is_sht_probe :: "event \<Rightarrow> bool" where
  "is_sht_probe (EvShtBegin addr) = (addr = 0x44)"
| "is_sht_probe _ = False"

definition sht_probes :: "event list \<Rightarrow> nat" where
  "sht_probes l = length (filter is_sht_probe l)"



text \<open>
  \<open>row_flushed e before s'\<close>: in \<open>s'\<close> the last three calls are a \<open>println\<close> that the
  card accepted, the flush and the close, all three made while logCount was \<open>before\<close>;
  the file ends with the line written; logCount is now \<open>before + 1\<close>.
\<close>

definition row_flushed :: "hw \<Rightarrow> u32 \<Rightarrow> state \<Rightarrow> bool" where
  "row_flushed e before s' \<longleftrightarrow>
     (\<exists>buf l c. hwlog s' = (EvClose, before) # (EvFlush, before) # (EvPrintln data_csv buf, before) # l \<and>
        \<not> sd_fault e (EvPrintln data_csv buf) (length l) \<and>
        files s' data_csv = Some (c @ buf @ CRLF) \<and>
        logCount s' = before + 1)"

section \<open>Concrete inputs\<close>

text \<open>
  A card and sensors that answer every call: 22.45 degrees and 58.3 per cent in the air
  (dew point 13.85), 8.5 degrees in the water, and the clock reports 2023-11-14 22:13:20
  UTC, which is 23:13:20 local time (CET). Nobody presses the button and the clock's
  alarm line stays high.
\<close>

definition quiet_hw :: hw where
  "quiet_hw =
     \<lparr>sd_fault = (\<lambda>ev n. False),
      sht_begin = (\<lambda>addr n. True),
      sht_temperature = (\<lambda>n. Some 22.45),
      sht_humidity = (\<lambda>n. Some 58.3),
      ds_temp = (\<lambda>n. 8.5),
      ds_resolution = (\<lambda>n. 12),
      rtc_unixtime = (\<lambda>n. 1700000000),
      localtime = (\<lambda>u. \<lparr>dt_year = 2023, dt_month = 11, dt_day = 14, dt_hour = 23, dt_minute = 13, dt_second = 20\<rparr>),
      gmtime = (\<lambda>u. \<lparr>dt_year = 2023, dt_month = 11, dt_day = 14, dt_hour = 22, dt_minute = 13, dt_second = 20\<rparr>),
      fmt_float = (\<lambda>k x. if x = 22.45 then ''22.45'' else if x = 58.3 then ''58.3''
                         else if x = 8.5 then ''8.50'' else ''13.85''),
      button_low = (\<lambda>n. False),
      wake_low = (\<lambda>n. False)\<rparr>"

text \<open>The globals as their initialisers leave them (lines 52-126), with an empty card.\<close>

definition power_on :: state where
  "power_on =
     \<lparr>sdAvailable = False, shtOK = False, rtcOK = False, ds18b20OK = False,
      displayOn = False, isMeasuring = False, displayUpdateCount = 0, lastDisplayUpdate = 0,
      sht_retry_counter = 0, logCount = 0, lastLogCountUpdate = 0, lastMeasureUnix = 0,
      interval = INTERVAL_NO_SD, historicalData_valid = False,
      data_ts = \<lparr>dt_year = 2000, dt_month = 1, dt_day = 1, dt_hour = 0, dt_minute = 0, dt_second = 0\<rparr>,
      data_t = 0, data_h = 0, data_td = 0, data_tWater = 0,
      data_shtValid = False, data_waterTempValid = False,
      dsConvPending = False, dsConvReadyAt = 0,
      sdFailCount = 0, lastSDRetry = 0, isBootPhase = True,
      millis = 0, files = (\<lambda>p. None), hwlog = []\<rparr>"

text \<open>The sketch running with a card whose data.csv holds \<open>c\<close>.\<close>

definition running :: "string \<Rightarrow> state" where
  "running c =
     power_on\<lparr>sdAvailable := True, shtOK := True, rtcOK := True, ds18b20OK := True,
       interval := INTERVAL_SD, isBootPhase := False,
       files := (\<lambda>p. if p = data_csv then Some c else None)\<rparr>"

definition sample_row :: string where
  "sample_row = ''2023-11-14T22:13:20Z,1700000000000,2023-11-14 23:13:20,22.45,58.3,13.85,8.50,1,1''"

definition five_rows :: string where
  "five_rows = CSV_HEADER @ CRLF @ sample_row @ CRLF @ sample_row @ CRLF @ sample_row @ CRLF @
               sample_row @ CRLF @ sample_row @ CRLF"

text \<open>
  No clock on the bus: what is read back converts to 2000-01-01 01:00:00. The sketch has
  booted without a clock and without a card (three failed attempts).
\<close>

definition no_rtc_hw :: hw where
  "no_rtc_hw = quiet_hw\<lparr>rtc_unixtime := (\<lambda>n. 946684800),
     localtime := (\<lambda>u. \<lparr>dt_year = 2000, dt_month = 1, dt_day = 1, dt_hour = 1, dt_minute = 0, dt_second = 0\<rparr>)\<rparr>"

definition no_clock :: state where
  "no_clock = power_on\<lparr>shtOK := True, ds18b20OK := True, isBootPhase := False,
     sdFailCount := 3, lastSDRetry := 1220, millis := 5000\<rparr>"

text \<open>
  A conversion was started 850 ms before \<open>millis()\<close> wrapped round and was due 100 ms
  before the wrap, at 4294967196. The display, polling once a second with
  \<open>millis() >= dsConvReadyAt\<close>, has not seen it due; 20 s after the wrap the display is
  off and enterLightSleep runs. The probe has been unplugged, so the library answers
  DS18B20_ERROR_DISCONNECTED.
\<close>

definition probe_unplugged :: state where
  "probe_unplugged =
     (running five_rows)\<lparr>dsConvPending := True, dsConvReadyAt := 4294967196, millis := 20000\<rparr>"

definition unplugged_hw :: hw where
  "unplugged_hw = quiet_hw\<lparr>ds_temp := (\<lambda>n. DS18B20_ERROR_DISCONNECTED)\<rparr>"

text \<open>The SHT3x has failed; three logging cycles have run.\<close>

definition sht_failed :: state where
  "sht_failed = (running five_rows)\<lparr>shtOK := False, sht_retry_counter := 3\<rparr>"


text \<open>
  The sketch has booted with a card but without a clock: \<open>rtc.begin()\<close> failed, so rtcOK
  is false and lastMeasureUnix is 0, the value measureAndLog stores then. A read of the
  clock would report 250.
\<close>

definition clock_missing :: state where
  "clock_missing = (running five_rows)\<lparr>rtcOK := False\<rparr>"

definition late_hw :: hw where
  "late_hw = quiet_hw\<lparr>rtc_unixtime := (\<lambda>n. 250)\<rparr>"

text \<open>The card has been pulled out: it refuses every call.\<close>

definition card_pulled :: hw where
  "card_pulled = quiet_hw\<lparr>sd_fault := (\<lambda>ev n. True)\<rparr>"

text \<open>The card is in place and healthy, but data.csv is not on it; seven rows are tracked.\<close>

definition file_gone :: state where
  "file_gone = (running [])\<lparr>files := (\<lambda>p. None), logCount := 7\<rparr>"

text \<open>The card refuses every rename and answers every other call.\<close>

definition rename_refused :: hw where
  "rename_refused =
     quiet_hw\<lparr>sd_fault := (\<lambda>ev n. case ev of EvRename p q \<Rightarrow> True | _ \<Rightarrow> False)\<rparr>"

text \<open>
  The card was lost a second ago (one failed attempt, made at 0 ms; it is now 1000 ms),
  so reinitSD is in its cool-down of 60 s; seven rows are tracked.
\<close>

definition cooling_down :: state where
  "cooling_down = (running five_rows)\<lparr>sdAvailable := False, sdFailCount := 1, lastSDRetry := 0,
     millis := 1000, logCount := 7\<rparr>"

section \<open>Auxiliary facts\<close>

lemmas card_calls = SD_exists_def SD_open_read_def SD_open_write_def F_println_def F_flush_def
  F_close_def SD_remove_def SD_rename_def RTC_now_def refused_def tick_def emit_def delay_def

subsection \<open>Loops with a literal number of attempts\<close>

lemma verify_open_numeral:
  "verify_open e (numeral k) s =
     (let (f, s1) = SD_open_read e data_csv s
      in case f of Some c \<Rightarrow> (Some c, s1) | None \<Rightarrow> verify_open e (pred_numeral k) (delay 150 s1))"
  by (simp add: numeral_eq_Suc)

lemma probe_exists_numeral:
  "probe_exists e (numeral k) s =
     (let (fileExists, s1) = SD_exists e data_csv s
      in if fileExists then (True, s1) else probe_exists e (pred_numeral k) (delay 50 s1))"
  by (simp add: numeral_eq_Suc)

subsection \<open>The sample file\<close>

lemma count5: "count_rows five_rows True 0 = 5"
  by (simp add: five_rows_def CSV_HEADER_def CRLF_def sample_row_def)

lemma size5: "\<not> file_size five_rows < 10"
  by (simp add: five_rows_def CSV_HEADER_def CRLF_def sample_row_def file_size_def)

subsection \<open>What the card functions leave alone\<close>

lemma verify_open_frame:
  "verify_open e n s = (f, s1) \<Longrightarrow> s1 = s\<lparr>millis := millis s1, hwlog := hwlog s1\<rparr>"
proof (induction n arbitrary: s)
  case 0
  then show ?case by simp
next
  case (Suc n)
  show ?case
  proof (cases "fst (SD_open_read e data_csv s)")
    case None
    with Suc.prems have "verify_open e n (delay 150 (snd (SD_open_read e data_csv s))) = (f, s1)"
      by (simp add: case_prod_unfold)
    from Suc.IH [OF this] show ?thesis
      by (simp add: SD_open_read_def emit_def delay_def)
  next
    case (Some c)
    with Suc.prems show ?thesis
      by (auto simp: case_prod_unfold SD_open_read_def emit_def)
  qed
qed

lemma verify_open_keeps:
  "logCount (snd (verify_open e n s)) = logCount s \<and> sdAvailable (snd (verify_open e n s)) = sdAvailable s"
proof -
  let ?s1 = "snd (verify_open e n s)"
  have "?s1 = s\<lparr>millis := millis ?s1, hwlog := hwlog ?s1\<rparr>"
    by (rule verify_open_frame [of e n s "fst (verify_open e n s)"]) simp
  then have "logCount ?s1 = logCount (s\<lparr>millis := millis ?s1, hwlog := hwlog ?s1\<rparr>)"
    and "sdAvailable ?s1 = sdAvailable (s\<lparr>millis := millis ?s1, hwlog := hwlog ?s1\<rparr>)"
    by simp_all
  then show ?thesis by simp
qed

lemma countLogEntries_keeps:
  "logCount (snd (countLogEntries e s)) = logCount s \<and>
   sdAvailable (snd (countLogEntries e s)) = sdAvailable s"
  by (simp add: countLogEntries_def SD_open_read_def F_close_def emit_def Let_def split: option.split)

lemma probe_exists_keeps:
  "logCount (snd (probe_exists e n s)) = logCount s \<and>
   sdAvailable (snd (probe_exists e n s)) = sdAvailable s"
  by (induction n arbitrary: s) (simp_all add: SD_exists_def emit_def delay_def Let_def)

subsection \<open>logData when the first pass commits\<close>

lemma logData_direct:
  assumes avail: "sdAvailable s" and found: "fst (probe_exists e 3 s)"
    and fin: "fst (logData_append e (snd (probe_exists e 3 s)))"
  shows "logData e s = (True, snd (logData_append e (snd (probe_exists e 3 s))))"
proof -
  have "logData_write e s = logData_append e (snd (probe_exists e 3 s))"
    using found by (simp add: logData_write_def case_prod_unfold)
  then have "logData_attempt e s = (Committed, snd (logData_append e (snd (probe_exists e 3 s))))"
    using avail fin by (simp add: logData_attempt_def case_prod_unfold)
  then show ?thesis
    by (simp add: logData_def logData_loop.simps [of e 0] MAX_LOG_RETRIES_def)
qed

lemma logData_append_count:
  "fst (logData_append e s) \<Longrightarrow> logCount (snd (logData_append e s)) = logCount s + 1"
  by (simp add: logData_append_def SD_open_write_def RTC_now_def F_println_def F_flush_def
      F_close_def emit_def delay_def Let_def split: if_splits option.splits)

lemmas sensor_calls = SHT_begin_def probeSHT_def readSHT_def DS_requestTemperatures_def
  DS_getTempCByIndex_def DS_getResolution_def DS_setWaitForConversion_def RTC_now_def
  unixToLocal_def tick_def emit_def delay_def

subsection \<open>The card functions neither probe the SHT3x nor, below logData, touch logCount\<close>

lemma probe_exists_quiet:
  "logCount (snd (probe_exists e n s)) = logCount s \<and>
   filter is_sht_probe (calls (snd (probe_exists e n s))) = filter is_sht_probe (calls s)"
  by (induction n arbitrary: s) (simp_all add: SD_exists_def emit_def delay_def Let_def)

lemma verify_created_quiet:
  "logCount (snd (verify_created e n s)) = logCount s \<and>
   filter is_sht_probe (calls (snd (verify_created e n s))) = filter is_sht_probe (calls s)"
  by (induction n arbitrary: s)
    (simp_all add: SD_exists_def SD_open_read_def F_close_def emit_def delay_def Let_def
      split: option.split)

lemma verify_open_quiet:
  "filter is_sht_probe (calls (snd (verify_open e n s))) = filter is_sht_probe (calls s)"
  by (induction n arbitrary: s)
    (simp_all add: SD_open_read_def emit_def delay_def Let_def split: option.split)

lemma write_header_quiet:
  "logCount (snd (write_header e d s)) = logCount s \<and>
   filter is_sht_probe (calls (snd (write_header e d s))) = filter is_sht_probe (calls s)"
  by (simp add: write_header_def F_println_def F_flush_def F_close_def emit_def delay_def Let_def
      split: option.split)

lemma reinit_fail_quiet:
  "logCount (reinit_fail s) = logCount s \<and>
   filter is_sht_probe (calls (reinit_fail s)) = filter is_sht_probe (calls s)"
  by (simp add: reinit_fail_def SD_end_def emit_def)

lemma reinit_create_quiet:
  "logCount (snd (reinit_create e s)) = logCount s \<and>
   filter is_sht_probe (calls (snd (reinit_create e s))) = filter is_sht_probe (calls s)"
  by (simp add: reinit_create_def case_prod_unfold Let_def reinit_fail_quiet verify_created_quiet
      write_header_quiet SD_open_dir_def SD_open_write_def F_close_def emit_def delay_def)

lemma reinit_existing_quiet:
  "logCount (snd (reinit_existing e s)) = logCount s \<and>
   filter is_sht_probe (calls (snd (reinit_existing e s))) = filter is_sht_probe (calls s)"
  by (simp add: reinit_existing_def case_prod_unfold Let_def reinit_fail_quiet
      write_header_quiet SD_open_read_def SD_remove_def SD_open_write_def F_close_def emit_def delay_def
      split: option.split)

lemma reinit_attempt_quiet:
  "logCount (snd (reinit_attempt e s)) = logCount s \<and>
   filter is_sht_probe (calls (snd (reinit_attempt e s))) = filter is_sht_probe (calls s)"
  by (simp add: reinit_attempt_def case_prod_unfold Let_def reinit_fail_quiet reinit_create_quiet
      reinit_existing_quiet probe_exists_quiet SD_begin_def SD_type_def SPI_end_def emit_def delay_def)

lemma reinit_loop_quiet:
  "logCount (snd (reinit_loop e k n s)) = logCount s \<and>
   filter is_sht_probe (calls (snd (reinit_loop e k n s))) = filter is_sht_probe (calls s)"
proof (induction e k n s rule: reinit_loop.induct)
  case (1 e k n s)
  show ?case
  proof (cases "k < n")
    case False
    then show ?thesis by (simp add: reinit_loop.simps [of e k n s])
  next
    case True
    let ?s1 = "if 0 < k then delay 500 s else s"
    have s1: "logCount ?s1 = logCount s" "filter is_sht_probe (calls ?s1) = filter is_sht_probe (calls s)"
      by (simp_all add: delay_def)
    show ?thesis
    proof (cases "fst (reinit_attempt e ?s1)")
      case True
      with \<open>k < n\<close> show ?thesis
        using s1 reinit_attempt_quiet [of e ?s1]
        by (simp add: reinit_loop.simps [of e k n s] case_prod_unfold Let_def)
    next
      case False
      have "logCount (snd (reinit_loop e (k + 1) n (snd (reinit_attempt e ?s1)))) =
              logCount (snd (reinit_attempt e ?s1)) \<and>
            filter is_sht_probe (calls (snd (reinit_loop e (k + 1) n (snd (reinit_attempt e ?s1))))) =
              filter is_sht_probe (calls (snd (reinit_attempt e ?s1)))"
        using "1.IH" [OF \<open>k < n\<close> refl refl prod.collapse False] .
      with \<open>k < n\<close> False show ?thesis
        using s1 reinit_attempt_quiet [of e ?s1]
        by (simp add: reinit_loop.simps [of e k n s] case_prod_unfold Let_def)
    qed
  qed
qed

lemma reinitSD_quiet:
  "logCount (snd (reinitSD e s)) = logCount s \<and>
   filter is_sht_probe (calls (snd (reinitSD e s))) = filter is_sht_probe (calls s)"
  by (simp add: reinitSD_def reinit_loop_quiet)

lemma logData_recreate_quiet:
  "filter is_sht_probe (calls (snd (logData_recreate e s))) = filter is_sht_probe (calls s)"
  by (simp add: logData_recreate_def case_prod_unfold Let_def write_header_quiet
      SD_open_write_def SD_exists_def emit_def)

lemma logData_append_quiet:
  "filter is_sht_probe (calls (snd (logData_append e s))) = filter is_sht_probe (calls s)"
  by (simp add: logData_append_def case_prod_unfold Let_def SD_open_write_def RTC_now_def
      F_println_def F_flush_def F_close_def emit_def delay_def split: option.split)

lemma logData_write_quiet:
  "filter is_sht_probe (calls (snd (logData_write e s))) = filter is_sht_probe (calls s)"
  by (simp add: logData_write_def case_prod_unfold Let_def logData_recreate_quiet
      logData_append_quiet probe_exists_quiet)

lemma logData_attempt_quiet:
  "filter is_sht_probe (calls (snd (logData_attempt e s))) = filter is_sht_probe (calls s)"
  by (simp add: logData_attempt_def case_prod_unfold Let_def logData_write_quiet reinitSD_quiet)

lemma logData_loop_quiet:
  "filter is_sht_probe (calls (snd (logData_loop e k s))) = filter is_sht_probe (calls s)"
proof (induction e k s rule: logData_loop.induct)
  case (1 e k s)
  show ?case
  proof (cases "k < MAX_LOG_RETRIES")
    case False
    then show ?thesis by (simp add: logData_loop.simps [of e k s])
  next
    case True
    obtain st s1 where a: "logData_attempt e s = (st, s1)" by (cases "logData_attempt e s")
    have q: "filter is_sht_probe (calls s1) = filter is_sht_probe (calls s)"
      using logData_attempt_quiet [of e s] a by simp
    show ?thesis
    proof (cases st)
      case Retry
      have "filter is_sht_probe (calls (snd (logData_loop e (k + 1) s1))) = filter is_sht_probe (calls s1)"
        using "1.IH" [OF True a [symmetric] Retry] .
      then show ?thesis using True a Retry q by (simp add: logData_loop.simps [of e k s])
    qed (use True a q in \<open>simp_all add: logData_loop.simps [of e k s]\<close>)
  qed
qed

lemma countLogEntries_quiet:
  "filter is_sht_probe (calls (snd (countLogEntries e s))) = filter is_sht_probe (calls s)"
  by (simp add: countLogEntries_def SD_open_read_def F_close_def emit_def Let_def split: option.split)

lemma verifyLastWrite_quiet:
  "filter is_sht_probe (calls (snd (verifyLastWrite e s))) = filter is_sht_probe (calls s)"
  by (simp add: verifyLastWrite_def case_prod_unfold Let_def verify_open_quiet countLogEntries_quiet
      forceEndSD_def SD_end_def SPI_end_def F_close_def emit_def delay_def split: option.split)

lemma probeSHT_probes: "sht_probes (calls (probeSHT e s)) = Suc (sht_probes (calls s))"
  by (simp add: sht_probes_def probeSHT_def SHT_begin_def emit_def Let_def)

lemma readSHT_probes: "sht_probes (calls (readSHT e s)) = sht_probes (calls s)"
  by (simp add: sht_probes_def readSHT_def emit_def Let_def split: option.split)

subsection \<open>What logData does to logCount\<close>

lemma logData_append_commits:
  assumes "logData_append e s = (True, s')"
  shows "row_flushed e (logCount s) s'"
proof -
  define s1 where "s1 = snd (SD_open_write e data_csv s)"
  define s2 where "s2 = snd (RTC_now e s1)"
  define buf where "buf = format_row e (fst (RTC_now e s1)) s2"
  have opened: "fst (SD_open_write e data_csv s)"
    using assms by (auto simp: logData_append_def case_prod_unfold Let_def split: if_splits)
  then have nr: "\<not> refused e (EvOpen data_csv FILE_WRITE) s"
    by (auto simp: SD_open_write_def split: if_splits)
  obtain c where c: "files s2 data_csv = Some c"
    using nr by (simp add: s2_def s1_def SD_open_write_def RTC_now_def emit_def)
  have lc: "logCount s2 = logCount s"
    by (simp add: s2_def s1_def SD_open_write_def RTC_now_def emit_def)
  have written: "fst (F_println e data_csv buf s2) \<noteq> 0"
    using assms opened
    by (auto simp: logData_append_def case_prod_unfold Let_def s1_def s2_def buf_def split: if_splits)
  then have acc: "\<not> refused e (EvPrintln data_csv buf) s2"
    using c by (auto simp: F_println_def split: if_splits)
  have s': "s' = (delay 200 (F_close (delay 50 (F_flush (snd (F_println e data_csv buf s2))))))
      \<lparr>logCount := logCount s2 + 1\<rparr>"
    using assms opened written
    by (auto simp: logData_append_def case_prod_unfold Let_def s1_def s2_def buf_def
        F_println_def F_flush_def F_close_def emit_def delay_def split: if_splits option.splits)
  have "hwlog s' = (EvClose, logCount s) # (EvFlush, logCount s) #
                   (EvPrintln data_csv buf, logCount s) # hwlog s2"
    and "files s' data_csv = Some (c @ buf @ CRLF)"
    and "logCount s' = logCount s + 1"
    using c acc lc by (simp_all add: s' F_println_def F_flush_def F_close_def emit_def delay_def)
  moreover have "\<not> sd_fault e (EvPrintln data_csv buf) (length (hwlog s2))"
    using acc by (simp add: refused_def tick_def)
  ultimately show ?thesis
    unfolding row_flushed_def by blast
qed

lemma logData_append_fails:
  assumes "logData_append e s = (False, s')"
  shows "logCount s' = logCount s"
  using assms
  by (auto simp: logData_append_def case_prod_unfold Let_def SD_open_write_def RTC_now_def
      F_println_def F_flush_def F_close_def emit_def delay_def split: if_splits option.splits)

lemma logData_recreate_count:
  "logCount (snd (logData_recreate e s)) = (if fst (logData_recreate e s) then 0 else logCount s)"
  by (simp add: logData_recreate_def case_prod_unfold Let_def write_header_quiet
      SD_open_write_def SD_exists_def emit_def)

lemma logData_write_count:
  assumes "logData_write e s = (c, s')"
  shows "(c \<longrightarrow> row_flushed e (logCount s) s' \<or> row_flushed e 0 s') \<and>
         (\<not> c \<longrightarrow> logCount s' = logCount s \<or> logCount s' = 0)"
proof -
  define s1 where "s1 = snd (probe_exists e 3 s)"
  have l1: "logCount s1 = logCount s" by (simp add: s1_def probe_exists_quiet)
  show ?thesis
  proof (cases "fst (probe_exists e 3 s)")
    case True
    then have "logData_append e s1 = (c, s')"
      using assms by (simp add: logData_write_def case_prod_unfold s1_def)
    then show ?thesis
      using l1 logData_append_commits [of e s1 s'] logData_append_fails [of e s1 s']
      by (cases c) auto
  next
    case False
    define s2 where "s2 = snd (logData_recreate e s1)"
    show ?thesis
    proof (cases "fst (logData_recreate e s1)")
      case True
      then have l2: "logCount s2 = 0"
        using logData_recreate_count [of e s1] by (simp add: s2_def)
      have "logData_append e s2 = (c, s')"
        using assms False True by (simp add: logData_write_def case_prod_unfold s1_def s2_def)
      then show ?thesis
        using l2 logData_append_commits [of e s2 s'] logData_append_fails [of e s2 s']
        by (cases c) auto
    next
      case nok: False
      then have "c = False" "s' = s2"
        using assms False by (simp_all add: logData_write_def case_prod_unfold s1_def s2_def)
      then show ?thesis
        using nok l1 logData_recreate_count [of e s1] by (simp add: s2_def)
    qed
  qed
qed

lemma logData_attempt_count:
  assumes "logData_attempt e s = (st, s')"
  shows "(st = Committed \<longrightarrow> row_flushed e (logCount s) s' \<or> row_flushed e 0 s') \<and>
         (st \<noteq> Committed \<longrightarrow> logCount s' = logCount s \<or> logCount s' = 0)"
proof (cases "sdAvailable s")
  case True
  then have "logData_write e s = (st = Committed, s')" "st \<noteq> GiveUp"
    using assms by (auto simp: logData_attempt_def case_prod_unfold prod_eq_iff Let_def split: if_splits)
  then show ?thesis using logData_write_count [of e s "st = Committed" s'] by simp
next
  case False
  show ?thesis
  proof (cases "sdFailCount s < SD_MAX_RETRIES \<and> fst (reinitSD e s)")
    case True
    define s1 where "s1 = snd (reinitSD e s)"
    have l1: "logCount s1 = logCount s" by (simp add: s1_def reinitSD_quiet)
    have "logData_write e s1 = (st = Committed, s')"
      using assms False True
      by (auto simp: logData_attempt_def case_prod_unfold prod_eq_iff s1_def Let_def split: if_splits)
    then show ?thesis using l1 logData_write_count [of e s1 "st = Committed" s'] by simp
  next
    case nore: False
    then have "st \<noteq> Committed" "logCount s' = logCount s"
      using assms False reinitSD_quiet [of e s]
      by (auto simp: logData_attempt_def case_prod_unfold prod_eq_iff Let_def split: if_splits)
    then show ?thesis by simp
  qed
qed

lemma logData_loop_count:
  "logData_loop e k s = (c, s') \<Longrightarrow>
     (c \<longrightarrow> row_flushed e (logCount s) s' \<or> row_flushed e 0 s') \<and>
     (\<not> c \<longrightarrow> logCount s' = logCount s \<or> logCount s' = 0)"
proof (induction e k s rule: logData_loop.induct)
  case (1 e k s)
  show ?case
  proof (cases "k < MAX_LOG_RETRIES")
    case False
    with "1.prems" show ?thesis by (auto simp: logData_loop.simps [of e k s])
  next
    case True
    obtain st s1 where a: "logData_attempt e s = (st, s1)" by (cases "logData_attempt e s")
    note step = logData_attempt_count [OF a]
    show ?thesis
    proof (cases st)
      case Committed
      with True a "1.prems" have "c" "s' = s1" by (simp_all add: logData_loop.simps [of e k s])
      with step Committed show ?thesis by simp
    next
      case GiveUp
      with True a "1.prems" have "\<not> c" "s' = s1" by (simp_all add: logData_loop.simps [of e k s])
      with step GiveUp show ?thesis by simp
    next
      case Retry
      with True a "1.prems" have "logData_loop e (k + 1) s1 = (c, s')"
        by (simp add: logData_loop.simps [of e k s])
      from "1.IH" [OF True a [symmetric] Retry this] step Retry show ?thesis by auto
    qed
  qed
qed

subsection \<open>Two runs of logData\<close>

lemma run_ok: "fst (logData quiet_hw ((running five_rows)\<lparr>logCount := 5\<rparr>))"
proof -
  let ?s = "(running five_rows)\<lparr>logCount := 5\<rparr>"
  have avail: "sdAvailable ?s" by (simp add: running_def)
  have found: "fst (probe_exists quiet_hw 3 ?s)"
    by (simp add: probe_exists_numeral running_def quiet_hw_def power_on_def card_calls)
  have fin: "fst (logData_append quiet_hw (snd (probe_exists quiet_hw 3 ?s)))"
    by (simp add: probe_exists_numeral logData_append_def running_def quiet_hw_def power_on_def
        card_calls Let_def)
  show ?thesis using logData_direct [OF avail found fin] by simp
qed

lemma run_six: "logCount (snd (logData quiet_hw ((running five_rows)\<lparr>logCount := 5\<rparr>))) = 6"
proof -
  let ?s = "(running five_rows)\<lparr>logCount := 5\<rparr>"
  have avail: "sdAvailable ?s" by (simp add: running_def)
  have found: "fst (probe_exists quiet_hw 3 ?s)"
    by (simp add: probe_exists_numeral running_def quiet_hw_def power_on_def card_calls)
  have fin: "fst (logData_append quiet_hw (snd (probe_exists quiet_hw 3 ?s)))"
    by (simp add: probe_exists_numeral logData_append_def running_def quiet_hw_def power_on_def
        card_calls Let_def)
  have "logCount (snd (logData_append quiet_hw (snd (probe_exists quiet_hw 3 ?s)))) =
      logCount (snd (probe_exists quiet_hw 3 ?s)) + 1"
    using fin by (rule logData_append_count)
  then show ?thesis
    using logData_direct [OF avail found fin] probe_exists_keeps [of quiet_hw 3 ?s] by simp
qed

lemma run_pulled:
  "\<not> fst (logData card_pulled ((running five_rows)\<lparr>logCount := 5\<rparr>)) \<and>
   logCount (snd (logData card_pulled ((running five_rows)\<lparr>logCount := 5\<rparr>))) = 5"
  by (simp add: logData_def logData_loop.simps logData_attempt_def logData_write_def
      logData_recreate_def probe_exists_numeral reinitSD_def reinit_loop.simps reinit_attempt_def
      SD_begin_def SPI_end_def SD_MAX_RETRIES_def MAX_LOG_RETRIES_def SD_RETRY_INTERVAL_def
      card_pulled_def running_def quiet_hw_def power_on_def card_calls Let_def)

subsection \<open>rotateLogFile\<close>

lemma rotation_name_fresh: "rotation_name ts \<noteq> data_csv"
  by (simp add: rotation_name_def data_csv_def)

lemma card_calls_count:
  "logCount (snd (SD_exists e p s)) = logCount s"
  "logCount (snd (SD_remove e p s)) = logCount s"
  "logCount (snd (SD_rename e p q s)) = logCount s"
  "logCount (snd (SD_open_write e p s)) = logCount s"
  "logCount (delay d s) = logCount s"
  by (simp_all add: SD_exists_def SD_remove_def SD_rename_def SD_open_write_def emit_def delay_def
      split: option.split)

lemma rotate_archive_count: "logCount (rotate_archive e q s) = logCount s"
  by (simp add: rotate_archive_def case_prod_unfold Let_def card_calls_count)

lemma rotate_archive_clears:
  assumes fresh: "q \<noteq> data_csv"
    and ex: "\<forall>n. \<not> sd_fault e (EvExists data_csv) n"
    and rm: "\<forall>n. \<not> sd_fault e (EvRemove data_csv) n"
  shows "files (rotate_archive e q s) data_csv = None"
proof (cases "files s data_csv")
  case None
  then show ?thesis
    by (simp add: rotate_archive_def case_prod_unfold Let_def SD_exists_def emit_def)
next
  case (Some c)
  define s2 where "s2 = snd (SD_exists e q (snd (SD_exists e data_csv s)))"
  define s3 where "s3 = (if fst (SD_exists e q (snd (SD_exists e data_csv s)))
                         then delay 100 (snd (SD_remove e q s2)) else s2)"
  have f3: "files s3 data_csv = Some c"
    using Some fresh
    by (simp add: s3_def s2_def SD_exists_def SD_remove_def emit_def delay_def split: option.split)
  have found: "fst (SD_exists e data_csv s)"
    using Some ex by (simp add: SD_exists_def refused_def)
  have r: "rotate_archive e q s =
      (if \<not> fst (SD_rename e data_csv q s3) then delay 100 (snd (SD_remove e data_csv (snd (SD_rename e data_csv q s3))))
       else delay 100 (snd (SD_rename e data_csv q s3)))"
    using found by (simp add: rotate_archive_def case_prod_unfold Let_def s3_def s2_def)
  show ?thesis
  proof (cases "fst (SD_rename e data_csv q s3)")
    case True
    then show ?thesis
      using f3 fresh by (auto simp: r SD_rename_def emit_def delay_def split: if_splits)
  next
    case False
    then have "files (snd (SD_rename e data_csv q s3)) data_csv = Some c"
      using f3 by (auto simp: SD_rename_def emit_def split: if_splits)
    then show ?thesis
      using False rm by (simp add: r SD_remove_def refused_def emit_def delay_def)
  qed
qed

lemma verify_created_found:
  "fst (verify_created e n s) \<Longrightarrow> \<exists>c. files s data_csv = Some c \<and> 0 < file_size c"
proof (induction n arbitrary: s)
  case 0
  then show ?case by simp
next
  case (Suc n)
  have keep: "files (delay d (F_close (snd (SD_open_read e data_csv (snd (SD_exists e data_csv s)))))) = files s"
    "files (delay d (snd (SD_open_read e data_csv (snd (SD_exists e data_csv s))))) = files s"
    "files (delay d (snd (SD_exists e data_csv s))) = files s" for d
    by (simp_all add: SD_exists_def SD_open_read_def F_close_def emit_def delay_def)
  show ?case
  proof (cases "fst (SD_exists e data_csv s)")
    case False
    with Suc.prems have "fst (verify_created e n (delay 100 (snd (SD_exists e data_csv s))))"
      by (simp add: case_prod_unfold)
    from Suc.IH [OF this] show ?thesis by (simp add: keep)
  next
    case True
    show ?thesis
    proof (cases "fst (SD_open_read e data_csv (snd (SD_exists e data_csv s)))")
      case None
      with True Suc.prems have
        "fst (verify_created e n (delay 100 (snd (SD_open_read e data_csv (snd (SD_exists e data_csv s))))))"
        by (simp add: case_prod_unfold)
      from Suc.IH [OF this] show ?thesis by (simp add: keep)
    next
      case (Some c)
      then have c: "files s data_csv = Some c"
        by (auto simp: SD_open_read_def SD_exists_def emit_def split: if_splits)
      show ?thesis
      proof (cases "0 < file_size c")
        case True
        with c show ?thesis by simp
      next
        case False
        with True Some Suc.prems have
          "fst (verify_created e n (delay 100 (F_close (snd (SD_open_read e data_csv (snd (SD_exists e data_csv s)))))))"
          by (simp add: case_prod_unfold)
        from Suc.IH [OF this] show ?thesis by (simp add: keep)
      qed
    qed
  qed
qed

lemma verify_created_files: "files (snd (verify_created e n s)) = files s"
  by (induction n arbitrary: s)
    (simp_all add: SD_exists_def SD_open_read_def F_close_def emit_def delay_def Let_def
      split: option.split)

lemma write_header_files:
  "files s data_csv = Some [] \<Longrightarrow>
   files (snd (write_header e d s)) data_csv = Some [] \<or>
   files (snd (write_header e d s)) data_csv = Some (CSV_HEADER @ CRLF)"
  by (simp add: write_header_def F_println_def F_flush_def F_close_def emit_def delay_def)

lemma open_write_creates:
  "fst (SD_open_write e p s) \<Longrightarrow> files s p = None \<Longrightarrow> files (snd (SD_open_write e p s)) p = Some []"
  by (auto simp: SD_open_write_def emit_def split: if_splits)

lemma verify_created_numeral:
  "verify_created e (numeral k) s =
     (let (ex, s1) = SD_exists e data_csv s
      in if ex then
           (let (testFile, s2) = SD_open_read e data_csv s1
            in case testFile of
                 None \<Rightarrow> verify_created e (pred_numeral k) (delay 100 s2)
               | Some c \<Rightarrow>
                   if file_size c > 0 then (True, F_close s2)
                   else verify_created e (pred_numeral k) (delay 100 (F_close s2)))
         else verify_created e (pred_numeral k) (delay 100 s1))"
  by (simp add: numeral_eq_Suc)

lemma header_size: "0 < file_size (CSV_HEADER @ CRLF)"
  by (simp add: file_size_def CSV_HEADER_def CRLF_def)

lemma run_rotate: "fst (rotateLogFile rename_refused ((running five_rows)\<lparr>logCount := 5\<rparr>))"
  by (simp add: rotateLogFile_def nowLocalFromRTC_def unixToLocal_def rotate_archive_def
      write_header_def verify_created_numeral header_size rotation_name_fresh
      rename_refused_def running_def quiet_hw_def power_on_def card_calls Let_def)

subsection \<open>logData when data.csv has to be created again\<close>

lemma probe_exists_absent:
  "files s data_csv = None \<Longrightarrow>
   \<not> fst (probe_exists e n s) \<and> files (snd (probe_exists e n s)) = files s"
  by (induction n arbitrary: s) (simp_all add: SD_exists_def emit_def delay_def Let_def)

lemma logData_recreate_healthy:
  assumes "\<forall>ev n. \<not> sd_fault e ev n" and "files s data_csv = None"
  shows "fst (logData_recreate e s) \<and>
         files (snd (logData_recreate e s)) data_csv = Some (CSV_HEADER @ CRLF)"
  using assms
  by (simp add: logData_recreate_def write_header_def SD_open_write_def SD_exists_def F_println_def
      F_flush_def F_close_def refused_def emit_def delay_def Let_def)

lemma logData_append_healthy:
  assumes "\<forall>ev n. \<not> sd_fault e ev n" and "files s data_csv = Some c"
  shows "fst (logData_append e s) \<and>
         (\<exists>row. files (snd (logData_append e s)) data_csv = Some (c @ row @ CRLF))"
  using assms
  by (simp add: logData_append_def SD_open_write_def RTC_now_def F_println_def
      F_flush_def F_close_def refused_def emit_def delay_def Let_def)

lemma logData_after_recreate:
  assumes avail: "sdAvailable s" and absent: "\<not> fst (probe_exists e 3 s)"
    and made: "fst (logData_recreate e (snd (probe_exists e 3 s)))"
    and fin: "fst (logData_append e (snd (logData_recreate e (snd (probe_exists e 3 s)))))"
  shows "logData e s = (True, snd (logData_append e (snd (logData_recreate e (snd (probe_exists e 3 s))))))"
proof -
  have w: "logData_write e s = logData_append e (snd (logData_recreate e (snd (probe_exists e 3 s))))"
    using absent made by (simp add: logData_write_def case_prod_unfold)
  have "logData_attempt e s =
      (Committed, snd (logData_append e (snd (logData_recreate e (snd (probe_exists e 3 s))))))"
    using avail fin by (simp add: logData_attempt_def case_prod_unfold w)
  then show ?thesis
    by (simp add: logData_def logData_loop.simps [of e 0] MAX_LOG_RETRIES_def)
qed

lemma logData_healthy_absent:
  assumes avail: "sdAvailable s" and healthy: "\<forall>ev n. \<not> sd_fault e ev n"
    and gone: "files s data_csv = None"
  shows "fst (logData e s) \<and>
         (\<exists>row. files (snd (logData e s)) data_csv = Some (CSV_HEADER @ CRLF @ row @ CRLF))"
proof -
  define s1 where "s1 = snd (probe_exists e 3 s)"
  define s2 where "s2 = snd (logData_recreate e s1)"
  have p: "\<not> fst (probe_exists e 3 s)" "files s1 data_csv = None"
    using probe_exists_absent [OF gone, of e 3] gone by (simp_all add: s1_def)
  have r: "fst (logData_recreate e s1)" "files s2 data_csv = Some (CSV_HEADER @ CRLF)"
    using logData_recreate_healthy [OF healthy p(2)] by (simp_all add: s2_def)
  have a: "fst (logData_append e s2)"
    "\<exists>row. files (snd (logData_append e s2)) data_csv = Some ((CSV_HEADER @ CRLF) @ row @ CRLF)"
    using logData_append_healthy [OF healthy r(2)] by simp_all
  have "logData e s = (True, snd (logData_append e s2))"
    using logData_after_recreate [OF avail p(1)] r(1) a(1) by (simp add: s1_def s2_def)
  then show ?thesis using a(2) by simp
qed


lemma recreate_steps:
  assumes avail: "sdAvailable s" and absent: "\<not> fst (probe_exists e 3 s)"
    and made: "fst (logData_recreate e (snd (probe_exists e 3 s)))"
  shows "let s1 = snd (probe_exists e 3 s);
             s2 = snd (logData_recreate e s1)
         in logCount s2 = 0 \<and>
            calls s2 = EvExists data_csv # EvClose # EvFlush # EvPrintln data_csv CSV_HEADER #
                       EvOpen data_csv FILE_WRITE # calls s1 \<and>
            (files s1 data_csv = None \<and> 0 < fst (write_header e 100 (snd (SD_open_write e data_csv s1)))
               \<longrightarrow> files s2 data_csv = Some (CSV_HEADER @ CRLF)) \<and>
            (fst (logData e s) \<longrightarrow> logCount (snd (logData e s)) = 1)"
proof -
  define s1 where "s1 = snd (probe_exists e 3 s)"
  define s2 where "s2 = snd (logData_recreate e s1)"
  have made': "fst (logData_recreate e s1)" using made by (simp add: s1_def)
  have zero: "logCount s2 = 0"
    using made' logData_recreate_count [of e s1] by (simp add: s2_def)
  have made_calls: "calls s2 = EvExists data_csv # EvClose # EvFlush # EvPrintln data_csv CSV_HEADER #
                       EvOpen data_csv FILE_WRITE # calls s1"
    using made'
    by (auto simp: s2_def logData_recreate_def write_header_def case_prod_unfold Let_def
        SD_open_write_def SD_exists_def F_println_def F_flush_def F_close_def emit_def delay_def
        split: if_splits option.splits)
  have content: "files s2 data_csv = Some (CSV_HEADER @ CRLF)"
    if "files s1 data_csv = None" and "0 < fst (write_header e 100 (snd (SD_open_write e data_csv s1)))"
    using made' that
    by (auto simp: s2_def logData_recreate_def write_header_def case_prod_unfold Let_def
        SD_open_write_def SD_exists_def F_println_def F_flush_def F_close_def emit_def delay_def
        refused_def tick_def split: if_splits option.splits)
  have one: "logCount (snd (logData e s)) = 1" if committed: "fst (logData e s)"
  proof (cases "fst (logData_append e s2)")
    case True
    have w: "logData_write e s = logData_append e s2"
      using absent made by (simp add: logData_write_def case_prod_unfold s1_def s2_def)
    have "logData_attempt e s = (Committed, snd (logData_append e s2))"
      using avail True by (simp add: logData_attempt_def case_prod_unfold w)
    then have "logData e s = (True, snd (logData_append e s2))"
      by (simp add: logData_def logData_loop.simps [of e 0] MAX_LOG_RETRIES_def)
    then show ?thesis using logData_append_count [OF True] zero by simp
  next
    case False
    define s3 where "s3 = snd (logData_append e s2)"
    have "logData_append e s2 = (False, s3)" using False by (simp add: s3_def prod_eq_iff)
    then have l3: "logCount s3 = 0" using logData_append_fails [of e s2 s3] zero by simp
    have w: "logData_write e s = logData_append e s2"
      using absent made by (simp add: logData_write_def case_prod_unfold s1_def s2_def)
    have "logData_attempt e s = (Retry, s3)"
      using avail False by (simp add: logData_attempt_def case_prod_unfold w s3_def)
    then have "logData e s = logData_loop e 1 s3"
      by (simp add: logData_def logData_loop.simps [of e 0] MAX_LOG_RETRIES_def)
    then have "logData_loop e 1 s3 = (True, snd (logData e s))"
      using committed by (simp add: prod_eq_iff)
    from logData_loop_count [OF this] l3 show ?thesis
      by (auto simp: row_flushed_def)
  qed
  show ?thesis
    using zero made_calls content one by (simp add: Let_def s1_def [symmetric] s2_def [symmetric])
qed

subsection \<open>Nothing between the entry of enterLightSleep and line 1213 sets dsConvPending\<close>






















subsection \<open>What measureDisplay does to the pending conversion\<close>



subsection \<open>A wake-up by the button with a conversion still pending\<close>



section \<open>The claims\<close>

text \<open>
  C3, amended. Whatever the interval, the time of the last measurement, the clock's
  answer and the flag rtcOK are, the sleep duration computed in enterLightSleep lies
  between 1 and MAX_SLEEP_SEC = 268 seconds. With the clock available (rtcOK true),
  interval = 240 and the clock reporting 250 seconds after the last measurement, it is
  1. With the clock not available (rtcOK false) the clock is not read and the duration
  is the interval, cut to 268 and raised to 1: with interval = 240 it is 240, whatever
  the clock would report.
\<close>

theorem sleep_remaining_range:
  "1 \<le> fst (sleep_remaining e s) \<and> fst (sleep_remaining e s) \<le> MAX_SLEEP_SEC \<and>
   (rtcOK s \<and> interval s = 240 \<and>
    unat (rtc_unixtime e (tick s)) = unat (lastMeasureUnix s) + 250
      \<longrightarrow> fst (sleep_remaining e s) = 1) \<and>
   (\<not> rtcOK s \<longrightarrow>
      fst (sleep_remaining e s) =
        (if interval s > MAX_SLEEP_SEC then MAX_SLEEP_SEC else if interval s = 0 then 1 else interval s) \<and>
      calls (snd (sleep_remaining e s)) = calls s)"
proof -
  have clamp: "1 \<le> (if (if r > 268 then 268 else r) = 0 then 1 else (if r > 268 then 268 else r)) \<and>
      (if (if r > 268 then 268 else r) = 0 then 1 else (if r > 268 then 268 else r)) \<le> 268"
    for r :: u32
    by (auto simp: word_le_nat_alt word_less_nat_alt Suc_le_eq unat_gt_0)
  define r where "r = (if rtcOK s then
      (let nowUnix = rtc_unixtime e (tick s);
           elapsed = (if nowUnix \<ge> lastMeasureUnix s then nowUnix - lastMeasureUnix s else 0)
       in (if elapsed < interval s then interval s - elapsed else 1))
     else interval s)"
  have "fst (sleep_remaining e s) =
      (if (if r > 268 then 268 else r) = 0 then 1 else (if r > 268 then 268 else r))"
    by (simp add: r_def sleep_remaining_def RTC_now_def emit_def MAX_SLEEP_SEC_def Let_def)
  then have range: "1 \<le> fst (sleep_remaining e s) \<and> fst (sleep_remaining e s) \<le> 268"
    using clamp [of r] by simp
  have scen: "fst (sleep_remaining e s) = 1"
    if ok: "rtcOK s" and iv: "interval s = 240"
      and now: "unat (rtc_unixtime e (tick s)) = unat (lastMeasureUnix s) + 250"
  proof -
    let ?n = "rtc_unixtime e (tick s)"
    let ?l = "lastMeasureUnix s"
    have le: "?l \<le> ?n" using now by (simp add: word_le_nat_alt)
    have "unat (?n - ?l) = 250" using le now by (simp add: unat_sub)
    then have el: "?n - ?l = 250" by (simp add: word_unat_eq_iff)
    show ?thesis
      using ok iv le el
      by (simp add: sleep_remaining_def RTC_now_def emit_def MAX_SLEEP_SEC_def Let_def)
  qed
  have blind: "fst (sleep_remaining e s) =
        (if interval s > MAX_SLEEP_SEC then MAX_SLEEP_SEC else if interval s = 0 then 1 else interval s) \<and>
      calls (snd (sleep_remaining e s)) = calls s"
    if "\<not> rtcOK s"
    using that by (simp add: sleep_remaining_def MAX_SLEEP_SEC_def Let_def)
  show ?thesis using range scen blind by (simp add: MAX_SLEEP_SEC_def)
qed

theorem sleep_remaining_range_witness:
  "fst (sleep_remaining (quiet_hw\<lparr>rtc_unixtime := (\<lambda>n. 1700000250)\<rparr>)
         (power_on\<lparr>rtcOK := True, interval := 240, lastMeasureUnix := 1700000000\<rparr>)) = 1 \<and>
   fst (sleep_remaining late_hw clock_missing) = 240 \<and>
   calls (snd (sleep_remaining late_hw clock_missing)) = []"
  using sleep_remaining_range [of "quiet_hw\<lparr>rtc_unixtime := (\<lambda>n. 1700000250)\<rparr>"
      "power_on\<lparr>rtcOK := True, interval := 240, lastMeasureUnix := 1700000000\<rparr>"]
    sleep_remaining_range [of late_hw clock_missing]
  by (simp add: quiet_hw_def power_on_def clock_missing_def running_def late_hw_def
      INTERVAL_SD_def MAX_SLEEP_SEC_def)

text \<open>
  C3 as stated fails: the sketch runs with a card and without a clock, the interval is
  240 and the clock would report 250 seconds after the last measurement; the clock is
  not read and the sleep duration is 240, not 1.
\<close>

theorem sleep_without_clock_counterexample:
  "rtcOK clock_missing = False \<and> interval clock_missing = 240 \<and>
   unat (rtc_unixtime late_hw (tick clock_missing)) = unat (lastMeasureUnix clock_missing) + 250 \<and>
   fst (sleep_remaining late_hw clock_missing) = 240"
  by (simp add: sleep_remaining_def clock_missing_def running_def power_on_def late_hw_def
      quiet_hw_def INTERVAL_SD_def MAX_SLEEP_SEC_def tick_def Let_def)

text \<open>
  C5. Once verifyLastWrite has opened the file and found at least 10 bytes, its counting
  pass decides: with fewer rows observed than logCount it sets logCount down to the
  observed number and returns false; with at least logCount rows observed it sets
  logCount to the observed number and returns true. An append that then finds the file
  and commits its row leaves logCount at the observed number plus one (observed 5,
  tracked 6: tracked becomes 5, then 6).
\<close>

theorem verify_resync:
  assumes avail: "sdAvailable s" and opened: "fst (verify_open e 5 s) = Some c"
    and big: "\<not> file_size c < 10"
  shows "let observed = fst (countLogEntries e (delay 50 (F_close (snd (verify_open e 5 s)))));
             r = verifyLastWrite e s;
             s' = snd r
         in (observed < logCount s \<longrightarrow> fst r = False \<and> logCount s' = observed) \<and>
            (logCount s \<le> observed \<longrightarrow> fst r = True \<and> logCount s' = observed) \<and>
            (fst (probe_exists e 3 s') \<and> fst (logData_append e (snd (probe_exists e 3 s'))) \<longrightarrow>
               fst (logData e s') \<and> logCount (snd (logData e s')) = observed + 1)"
proof -
  define s2 where "s2 = delay 50 (F_close (snd (verify_open e 5 s)))"
  define observed where "observed = fst (countLogEntries e s2)"
  define s3 where "s3 = snd (countLogEntries e s2)"
  have k2: "logCount s2 = logCount s" "sdAvailable s2"
    using avail verify_open_keeps [of e 5 s] by (simp_all add: s2_def delay_def F_close_def emit_def)
  have k3: "logCount s3 = logCount s" "sdAvailable s3"
    using k2 countLogEntries_keeps [of e s2] by (simp_all add: s3_def)
  have r: "verifyLastWrite e s = (logCount s \<le> observed, s3\<lparr>logCount := observed\<rparr>)"
    using avail opened big k3
    by (simp add: verifyLastWrite_def Let_def case_prod_unfold s2_def [symmetric]
        observed_def [symmetric] s3_def [symmetric])
  define s' where "s' = s3\<lparr>logCount := observed\<rparr>"
  have a: "sdAvailable s'" "logCount s' = observed" using k3 by (simp_all add: s'_def)
  have next_append: "fst (logData e s') \<and> logCount (snd (logData e s')) = observed + 1"
    if found: "fst (probe_exists e 3 s')"
      and fin: "fst (logData_append e (snd (probe_exists e 3 s')))"
  proof -
    have "logData e s' = (True, snd (logData_append e (snd (probe_exists e 3 s'))))"
      using a(1) found fin by (rule logData_direct)
    moreover have "logCount (snd (logData_append e (snd (probe_exists e 3 s')))) =
        logCount (snd (probe_exists e 3 s')) + 1"
      using fin by (rule logData_append_count)
    ultimately show ?thesis using a(2) probe_exists_keeps [of e 3 s'] by simp
  qed
  show ?thesis
    using next_append
    by (simp add: Let_def r s2_def [symmetric] observed_def [symmetric] s'_def [symmetric] a(2)
        del: One_nat_def) (auto simp: not_le)
qed


theorem verify_resync_witness:
  "fst (verifyLastWrite quiet_hw ((running five_rows)\<lparr>logCount := 6\<rparr>)) = False \<and>
   logCount (snd (verifyLastWrite quiet_hw ((running five_rows)\<lparr>logCount := 6\<rparr>))) = 5 \<and>
   logCount (snd (logData quiet_hw (snd (verifyLastWrite quiet_hw ((running five_rows)\<lparr>logCount := 6\<rparr>))))) = 6"
proof -
  let ?s = "(running five_rows)\<lparr>logCount := 6\<rparr>"
  have avail: "sdAvailable ?s" by (simp add: running_def)
  have opened: "fst (verify_open quiet_hw 5 ?s) = Some five_rows"
    by (simp add: verify_open_numeral running_def quiet_hw_def card_calls)
  have big: "\<not> file_size five_rows < 10" by (rule size5)
  have obs: "fst (countLogEntries quiet_hw (delay 50 (F_close (snd (verify_open quiet_hw 5 ?s))))) = 5"
    by (simp add: verify_open_numeral countLogEntries_def running_def quiet_hw_def card_calls count5)
  have found: "fst (probe_exists quiet_hw 3 (snd (verifyLastWrite quiet_hw ?s)))"
    using big
    by (simp add: verifyLastWrite_def verify_open_numeral probe_exists_numeral countLogEntries_def
        running_def quiet_hw_def power_on_def card_calls count5 Let_def)
  have fin: "fst (logData_append quiet_hw (snd (probe_exists quiet_hw 3 (snd (verifyLastWrite quiet_hw ?s)))))"
    using big
    by (simp add: verifyLastWrite_def verify_open_numeral probe_exists_numeral countLogEntries_def
        logData_append_def running_def quiet_hw_def power_on_def card_calls count5 Let_def)
  show ?thesis
    using verify_resync [OF avail opened big] obs found fin
    by (simp add: Let_def)
qed


text \<open>
  C10. When verifyLastWrite has opened the file and its size is below 10 bytes, it
  returns false and nothing but the clock and the call log has changed: logCount is not
  resynchronised, sdAvailable stays set, and the last call is the close of the size
  check, so no counting pass was made. When the file cannot be opened in five attempts,
  verifyLastWrite returns false and marks the card unavailable.
\<close>

theorem verify_small_file:
  assumes avail: "sdAvailable s" and opened: "verify_open e 5 s = (f, s1)"
  shows "(f = Some c \<and> file_size c < 10 \<longrightarrow>
            verifyLastWrite e s = (False, s\<lparr>millis := millis s1 + 50, hwlog := (EvClose, logCount s) # hwlog s1\<rparr>)) \<and>
         (f = None \<longrightarrow>
            fst (verifyLastWrite e s) = False \<and> sdAvailable (snd (verifyLastWrite e s)) = False)"
proof -
  have fr: "s1 = s\<lparr>millis := millis s1, hwlog := hwlog s1\<rparr>"
    using opened by (rule verify_open_frame)
  have small: "verifyLastWrite e s = (False, s\<lparr>millis := millis s1 + 50, hwlog := (EvClose, logCount s) # hwlog s1\<rparr>)"
    if "f = Some c" and "file_size c < 10"
  proof -
    have "verifyLastWrite e s = (False, delay 50 (F_close s1))"
      using avail opened that by (simp add: verifyLastWrite_def Let_def)
    moreover have "delay 50 (F_close s1) = s\<lparr>millis := millis s1 + 50, hwlog := (EvClose, logCount s) # hwlog s1\<rparr>"
    proof -
      have lc: "logCount s1 = logCount s"
        using arg_cong [OF fr, of logCount] by simp
      have "delay 50 (F_close s1) = s1\<lparr>millis := millis s1 + 50, hwlog := (EvClose, logCount s) # hwlog s1\<rparr>"
        by (simp add: delay_def F_close_def emit_def lc)
      also have "\<dots> = s\<lparr>millis := millis s1 + 50, hwlog := (EvClose, logCount s) # hwlog s1\<rparr>"
        using arg_cong [OF fr, of "\<lambda>x. x\<lparr>millis := millis s1 + 50, hwlog := (EvClose, logCount s) # hwlog s1\<rparr>"]
        by simp
      finally show ?thesis .
    qed
    ultimately show ?thesis by simp
  qed
  have gone: "fst (verifyLastWrite e s) = False \<and> sdAvailable (snd (verifyLastWrite e s)) = False"
    if "f = None"
    using avail opened that by (simp add: verifyLastWrite_def Let_def)
  show ?thesis using small gone by blast
qed


theorem verify_small_file_witness:
  "verifyLastWrite quiet_hw ((running ''ts_utc'')\<lparr>logCount := 7\<rparr>) =
     (False, (running ''ts_utc'')\<lparr>logCount := 7, millis := 50,
                hwlog := [(EvClose, 7), (EvOpen data_csv FILE_READ, 7)]\<rparr>) \<and>
   \<not> sdAvailable (snd (verifyLastWrite (quiet_hw\<lparr>sd_fault := (\<lambda>ev n. True)\<rparr>) (running ''ts_utc'')))"
  using verify_small_file [of "(running ''ts_utc'')\<lparr>logCount := 7\<rparr>" quiet_hw
      "fst (verify_open quiet_hw 5 ((running ''ts_utc'')\<lparr>logCount := 7\<rparr>))"
      "snd (verify_open quiet_hw 5 ((running ''ts_utc'')\<lparr>logCount := 7\<rparr>))" "''ts_utc''"]
    verify_small_file [of "running ''ts_utc''" "quiet_hw\<lparr>sd_fault := (\<lambda>ev n. True)\<rparr>"
      "fst (verify_open (quiet_hw\<lparr>sd_fault := (\<lambda>ev n. True)\<rparr>) 5 (running ''ts_utc''))"
      "snd (verify_open (quiet_hw\<lparr>sd_fault := (\<lambda>ev n. True)\<rparr>) 5 (running ''ts_utc''))" "[]"]
  by (simp add: running_def power_on_def quiet_hw_def verify_open_numeral SD_open_read_def refused_def forceEndSD_def SD_end_def SPI_end_def
      emit_def delay_def file_size_def data_csv_def)





text \<open>
  C7, amended. measureAndLog probes a failed SHT3x exactly when the cycle counter it has
  just incremented is a multiple of SHT_RETRY_INTERVAL; measureDisplay, which does not
  count cycles, probes a failed SHT3x on every call. Neither probes a healthy sensor.
\<close>

theorem sht_probe_cadence:
  "sht_probes (calls (measureAndLog e s)) =
     sht_probes (calls s) +
       (if \<not> shtOK s \<and> (sht_retry_counter s + 1) mod SHT_RETRY_INTERVAL = 0 then 1 else 0) \<and>
   sht_probes (calls (measureDisplay e s)) = sht_probes (calls s) + (if \<not> shtOK s then 1 else 0)"
proof -
  have log: "sht_probes (calls (snd (verifyLastWrite e (snd (logData e x))))) = sht_probes (calls x)" for x
    by (simp add: sht_probes_def verifyLastWrite_quiet logData_def logData_loop_quiet)
  have water: "sht_probes (calls (measureAndLog_water e x)) = sht_probes (calls x)" for x
    by (simp add: sht_probes_def measureAndLog_water_def DS_requestTemperatures_def
        DS_getTempCByIndex_def emit_def Let_def)
  have start: "sht_probes (calls (measureDisplay_water e x)) = sht_probes (calls x)" for x
    by (simp add: sht_probes_def measureDisplay_water_def DS_requestTemperatures_def
        DS_getResolution_def DS_setWaitForConversion_def emit_def Let_def)
  have clock: "sht_probes (EvRtcNow # l) = sht_probes l" for l
    by (simp add: sht_probes_def)
  have a: "sht_probes (calls (measureAndLog e s)) =
     sht_probes (calls s) +
       (if \<not> shtOK s \<and> (sht_retry_counter s + 1) mod SHT_RETRY_INTERVAL = 0 then 1 else 0)"
    by (simp add: measureAndLog_def Let_def case_prod_unfold log water clock RTC_now_def emit_def
        probeSHT_probes readSHT_probes)
  have b: "sht_probes (calls (measureDisplay e s)) = sht_probes (calls s) + (if \<not> shtOK s then 1 else 0)"
    by (simp add: measureDisplay_def Let_def case_prod_unfold start clock RTC_now_def emit_def
        probeSHT_probes readSHT_probes)
  show ?thesis using a b by simp
qed


text \<open>
  C7 as stated fails: with the SHT3x failed and the cycle counter at 3, measureDisplay
  probes the sensor.
\<close>

theorem display_probe_counterexample:
  "\<not> shtOK sht_failed \<and> sht_retry_counter sht_failed mod SHT_RETRY_INTERVAL = 3 \<and>
   sht_probes (calls sht_failed) = 0 \<and>
   sht_probes (calls (measureDisplay quiet_hw sht_failed)) = 1"
  by (simp add: sht_failed_def running_def power_on_def quiet_hw_def SHT_RETRY_INTERVAL_def
      sht_probes_def measureDisplay_def measureDisplay_water_def sensor_calls Let_def)


text \<open>
  C8. The resolve block of enterLightSleep, unlike the blocking read in measureAndLog and
  the poll in updateDisplay, leaves ds18b20OK set when the conversion it resolves reads
  the sentinel -127: the reading is dropped and the pending flag cleared, but the health
  flag is not.
\<close>

theorem resolve_keeps_health_flag:
  "ds18b20OK probe_unplugged \<and> dsConvPending probe_unplugged \<and>
   calls (enterLightSleep_resolve unplugged_hw probe_unplugged) = [EvDsGetTemp] \<and>
   \<not> dsConvPending (enterLightSleep_resolve unplugged_hw probe_unplugged) \<and>
   \<not> data_waterTempValid (enterLightSleep_resolve unplugged_hw probe_unplugged) \<and>
   ds18b20OK (enterLightSleep_resolve unplugged_hw probe_unplugged) \<and>
   \<not> ds18b20OK (measureAndLog_water unplugged_hw probe_unplugged) \<and>
   \<not> ds18b20OK (updateDisplay_poll unplugged_hw (probe_unplugged\<lparr>dsConvReadyAt := 750\<rparr>))"
  by (simp add: enterLightSleep_resolve_def drain_loop.simps drain_poll_def updateDisplay_poll_def
      measureAndLog_water_def probe_unplugged_def unplugged_hw_def running_def quiet_hw_def
      power_on_def sensor_calls Let_def
      DS18B20_ERROR_DISCONNECTED_def DS18B20_ERROR_POWER_ON_RESET_def)

text \<open>
  C9. With rtcOK false, measureAndLog stamps the reading with the placeholder
  2023-01-01 00:00:00, but measureDisplay reads the clock all the same and stamps the
  reading with what it converts to.
\<close>

theorem measureDisplay_reads_dead_clock:
  "rtcOK no_clock = False \<and>
   data_ts (measureDisplay no_rtc_hw no_clock) =
     \<lparr>dt_year = 2000, dt_month = 1, dt_day = 1, dt_hour = 1, dt_minute = 0, dt_second = 0\<rparr> \<and>
   data_ts (measureDisplay no_rtc_hw no_clock) \<noteq> placeholder_ts \<and>
   data_ts (measureAndLog no_rtc_hw no_clock) = placeholder_ts"
  by (simp add: measureDisplay_def measureAndLog_def measureDisplay_water_def measureAndLog_water_def
      no_rtc_hw_def no_clock_def quiet_hw_def power_on_def placeholder_ts_def sensor_calls Let_def
      DS18B20_ERROR_DISCONNECTED_def DS18B20_ERROR_POWER_ON_RESET_def)

text \<open>
  C4. Whenever logData commits a row (it leaves through the \<open>return\<close> of line 664, the
  only exit behind the increment), the last three calls it made are the \<open>println\<close> of the
  row, which the card accepted (a non-zero number of bytes), the flush and the close, all
  three made while logCount still had its value \<open>n\<close> of before (the count at entry, or 0
  after the file had to be created again); the file ends with that row; and logCount is
  \<open>n + 1\<close> at the end. Whenever logData does not commit a row, logCount is the count at
  entry or 0: it has not been incremented.
\<close>

theorem logData_counts_flushed_rows:
  assumes "logData e s = (committed, s')"
  shows "(committed \<longrightarrow>
           (\<exists>buf n l c.
              hwlog s' = (EvClose, n) # (EvFlush, n) # (EvPrintln data_csv buf, n) # l \<and>
              \<not> sd_fault e (EvPrintln data_csv buf) (length l) \<and>
              files s' data_csv = Some (c @ buf @ CRLF) \<and>
              (n = logCount s \<or> n = 0) \<and>
              logCount s' = n + 1)) \<and>
         (\<not> committed \<longrightarrow> logCount s' = logCount s \<or> logCount s' = 0)"
proof -
  have l: "(committed \<longrightarrow> row_flushed e (logCount s) s' \<or> row_flushed e 0 s') \<and>
     (\<not> committed \<longrightarrow> logCount s' = logCount s \<or> logCount s' = 0)"
    using assms logData_loop_count [of e 0 s committed s'] by (simp add: logData_def)
  have "\<exists>buf n l c.
              hwlog s' = (EvClose, n) # (EvFlush, n) # (EvPrintln data_csv buf, n) # l \<and>
              \<not> sd_fault e (EvPrintln data_csv buf) (length l) \<and>
              files s' data_csv = Some (c @ buf @ CRLF) \<and>
              (n = logCount s \<or> n = 0) \<and>
              logCount s' = n + 1"
    if "row_flushed e (logCount s) s' \<or> row_flushed e 0 s'"
    using that unfolding row_flushed_def by metis
  then show ?thesis using l by blast
qed

theorem logData_counts_flushed_rows_witness:
  "(\<exists>buf l c.
      hwlog (snd (logData quiet_hw ((running five_rows)\<lparr>logCount := 5\<rparr>))) =
        (EvClose, 5) # (EvFlush, 5) # (EvPrintln data_csv buf, 5) # l \<and>
      files (snd (logData quiet_hw ((running five_rows)\<lparr>logCount := 5\<rparr>))) data_csv =
        Some (c @ buf @ CRLF)) \<and>
   logCount (snd (logData quiet_hw ((running five_rows)\<lparr>logCount := 5\<rparr>))) = 6 \<and>
   logCount (snd (logData card_pulled ((running five_rows)\<lparr>logCount := 5\<rparr>))) = 5"
proof -
  define s where "s = (running five_rows)\<lparr>logCount := 5\<rparr>"
  define r where "r = snd (logData quiet_hw s)"
  define r' where "r' = snd (logData card_pulled s)"
  have five: "logCount s = 5" by (simp add: s_def)
  have ok: "logData quiet_hw s = (True, r)"
    using run_ok by (simp add: prod_eq_iff s_def r_def)
  have bad: "logData card_pulled s = (False, r')"
    using run_pulled by (simp add: prod_eq_iff s_def r'_def)
  obtain buf n l c where h:
    "hwlog r = (EvClose, n) # (EvFlush, n) # (EvPrintln data_csv buf, n) # l"
    "files r data_csv = Some (c @ buf @ CRLF)" "n = 5 \<or> n = 0" "logCount r = n + 1"
    using logData_counts_flushed_rows [OF ok] five by auto
  have six: "logCount r = 6"
    using run_six by (simp add: r_def s_def)
  then have "n = 5" using h(3,4) by auto
  then have first: "\<exists>buf l c.
      hwlog r = (EvClose, 5) # (EvFlush, 5) # (EvPrintln data_csv buf, 5) # l \<and>
      files r data_csv = Some (c @ buf @ CRLF)"
    using h(1,2) by blast
  have "logCount r' = logCount s \<or> logCount r' = 0"
    using logData_counts_flushed_rows [OF bad] by blast
  then have second: "logCount r' = 5"
    using run_pulled by (simp add: s_def r'_def)
  show ?thesis using first six second unfolding s_def r_def r'_def by blast
qed

text \<open>
  C6. When logData runs with the card available, does not find data.csv in its three
  probes and creates it again, then logCount is 0 after the creation, the calls made were
  open, \<open>println\<close> of the CSV header, flush, close and exists, a file that was really
  absent and took the header holds exactly the header line, and if logData commits a row
  in this call, logCount is 1 at its end, whatever it was before. In particular, when the
  card is available and answers every call and data.csv is absent, logData commits a row,
  logCount is 1 at its end and the file holds the header line and that row.
\<close>

theorem recreate_resets_count:
  assumes avail: "sdAvailable s"
  shows "(\<not> fst (probe_exists e 3 s) \<and> fst (logData_recreate e (snd (probe_exists e 3 s))) \<longrightarrow>
           (let s1 = snd (probe_exists e 3 s);
                s2 = snd (logData_recreate e s1)
            in logCount s2 = 0 \<and>
               calls s2 = EvExists data_csv # EvClose # EvFlush # EvPrintln data_csv CSV_HEADER #
                          EvOpen data_csv FILE_WRITE # calls s1 \<and>
               (files s1 data_csv = None \<and>
                0 < fst (write_header e 100 (snd (SD_open_write e data_csv s1)))
                  \<longrightarrow> files s2 data_csv = Some (CSV_HEADER @ CRLF)) \<and>
               (fst (logData e s) \<longrightarrow> logCount (snd (logData e s)) = 1))) \<and>
         ((\<forall>ev n. \<not> sd_fault e ev n) \<and> files s data_csv = None \<longrightarrow>
            fst (logData e s) \<and> logCount (snd (logData e s)) = 1 \<and>
            (\<exists>row. files (snd (logData e s)) data_csv = Some (CSV_HEADER @ CRLF @ row @ CRLF)))"
proof -
  have scenario: "fst (logData e s) \<and> logCount (snd (logData e s)) = 1 \<and>
      (\<exists>row. files (snd (logData e s)) data_csv = Some (CSV_HEADER @ CRLF @ row @ CRLF))"
    if healthy: "\<forall>ev n. \<not> sd_fault e ev n" and gone: "files s data_csv = None"
  proof -
    have absent: "\<not> fst (probe_exists e 3 s)"
      and still: "files (snd (probe_exists e 3 s)) data_csv = None"
      using probe_exists_absent [OF gone, of e 3] gone by simp_all
    have made: "fst (logData_recreate e (snd (probe_exists e 3 s)))"
      using logData_recreate_healthy [OF healthy still] by simp
    have "fst (logData e s) \<longrightarrow> logCount (snd (logData e s)) = 1"
      using recreate_steps [OF avail absent made] by (simp add: Let_def)
    then show ?thesis using logData_healthy_absent [OF avail healthy gone] by simp
  qed
  show ?thesis
    using recreate_steps [OF avail] scenario by blast
qed

theorem recreate_resets_count_witness:
  "logCount file_gone = 7 \<and>
   logCount (snd (logData_recreate quiet_hw (snd (probe_exists quiet_hw 3 file_gone)))) = 0 \<and>
   files (snd (logData_recreate quiet_hw (snd (probe_exists quiet_hw 3 file_gone)))) data_csv =
     Some (CSV_HEADER @ CRLF) \<and>
   fst (logData quiet_hw file_gone) \<and>
   logCount (snd (logData quiet_hw file_gone)) = 1"
proof -
  have avail: "sdAvailable file_gone" by (simp add: file_gone_def running_def)
  have healthy: "\<forall>ev n. \<not> sd_fault quiet_hw ev n" by (simp add: quiet_hw_def)
  have gone: "files file_gone data_csv = None" by (simp add: file_gone_def)
  have absent: "\<not> fst (probe_exists quiet_hw 3 file_gone)"
    by (simp add: probe_exists_numeral file_gone_def running_def quiet_hw_def power_on_def card_calls)
  have made: "fst (logData_recreate quiet_hw (snd (probe_exists quiet_hw 3 file_gone)))"
    by (simp add: probe_exists_numeral logData_recreate_def write_header_def file_gone_def
        running_def quiet_hw_def power_on_def card_calls Let_def)
  have really: "files (snd (probe_exists quiet_hw 3 file_gone)) data_csv = None"
    by (simp add: probe_exists_numeral file_gone_def running_def quiet_hw_def power_on_def card_calls)
  have header: "0 < fst (write_header quiet_hw 100
      (snd (SD_open_write quiet_hw data_csv (snd (probe_exists quiet_hw 3 file_gone)))))"
    by (simp add: probe_exists_numeral write_header_def file_gone_def
        running_def quiet_hw_def power_on_def card_calls Let_def)
  have start: "logCount file_gone = 7" by (simp add: file_gone_def)
  show ?thesis
    using recreate_resets_count [OF avail, of quiet_hw] healthy gone absent made really header start
    by (simp add: Let_def)
qed


text \<open>
  C2, amended. Whenever rotateLogFile returns true, logCount is 0, and if the card answers
  every \<open>exists\<close> and every \<open>remove\<close> of /data.csv, the file holds exactly the header
  row, also when the rename of the old file failed and the old file was removed instead.
  Whenever rotateLogFile returns false, logCount is what it was.
\<close>

theorem rotate_resets_on_success:
  assumes run: "rotateLogFile e s = (ok, s')"
  shows "(ok \<longrightarrow>
           logCount s' = 0 \<and>
           ((\<forall>n. \<not> sd_fault e (EvExists data_csv) n) \<and> (\<forall>n. \<not> sd_fault e (EvRemove data_csv) n)
              \<longrightarrow> files s' data_csv = Some (CSV_HEADER @ CRLF))) \<and>
         (\<not> ok \<longrightarrow> logCount s' = logCount s)"
proof -
  define avail where "avail = (if \<not> sdAvailable s then fst (reinitSD e s) else True)"
  define s1 where "s1 = (if \<not> sdAvailable s then snd (reinitSD e s) else s)"
  define s2 where "s2 = snd (nowLocalFromRTC e s1)"
  define q where "q = rotation_name (fst (nowLocalFromRTC e s1))"
  define s3 where "s3 = rotate_archive e q s2"
  define s4 where "s4 = snd (SD_open_write e data_csv s3)"
  define s5 where "s5 = snd (write_header e 200 s4)"
  define s6 where "s6 = snd (verify_created e 3 s5)"
  have l1: "logCount s1 = logCount s" by (simp add: s1_def reinitSD_quiet)
  have l2: "logCount s2 = logCount s"
    using l1 by (simp add: s2_def nowLocalFromRTC_def RTC_now_def emit_def)
  have l3: "logCount s3 = logCount s" using l2 by (simp add: s3_def rotate_archive_count)
  have l4: "logCount s4 = logCount s" using l3 by (simp add: s4_def card_calls_count)
  have l5: "logCount s5 = logCount s" using l4 by (simp add: s5_def write_header_quiet)
  have l6: "logCount s6 = logCount s" using l5 by (simp add: s6_def verify_created_quiet)
  have r: "rotateLogFile e s =
     (if \<not> avail then (False, s1)
      else if \<not> fst (SD_open_write e data_csv s3) then (False, s4\<lparr>sdAvailable := False\<rparr>)
      else if \<not> fst (verify_created e 3 s5) then (False, s6\<lparr>sdAvailable := False\<rparr>)
      else (True, s6\<lparr>logCount := 0, lastLogCountUpdate := millis s6, historicalData_valid := False\<rparr>))"
    by (simp add: rotateLogFile_def case_prod_unfold Let_def avail_def s1_def s2_def q_def s3_def
        s4_def s5_def s6_def)
  have fail: "logCount s' = logCount s" if "\<not> ok"
    using run that l1 l4 l6 by (auto simp: r split: if_splits)
  have zero: "logCount s' = 0" if "ok"
    using run that by (auto simp: r split: if_splits)
  have fresh: "files s' data_csv = Some (CSV_HEADER @ CRLF)"
    if "ok" and ex: "\<forall>n. \<not> sd_fault e (EvExists data_csv) n"
      and rm: "\<forall>n. \<not> sd_fault e (EvRemove data_csv) n"
  proof -
    have opened: "fst (SD_open_write e data_csv s3)" and verified: "fst (verify_created e 3 s5)"
      and s': "s' = s6\<lparr>logCount := 0, lastLogCountUpdate := millis s6, historicalData_valid := False\<rparr>"
      using run \<open>ok\<close> by (auto simp: r split: if_splits)
    have "files s3 data_csv = None"
      unfolding s3_def q_def by (rule rotate_archive_clears [OF rotation_name_fresh ex rm])
    then have "files s4 data_csv = Some []"
      using opened by (simp add: s4_def open_write_creates)
    then have either: "files s5 data_csv = Some [] \<or> files s5 data_csv = Some (CSV_HEADER @ CRLF)"
      unfolding s5_def by (rule write_header_files)
    obtain c where c: "files s5 data_csv = Some c" "0 < file_size c"
      using verify_created_found [OF verified] by blast
    have "c \<noteq> []" using c(2) by (auto simp: file_size_def)
    then have "files s5 data_csv = Some (CSV_HEADER @ CRLF)" using either c(1) by auto
    then show ?thesis by (simp add: s' s6_def verify_created_files)
  qed
  show ?thesis using fail zero fresh by blast
qed

theorem rotate_resets_on_success_witness:
  "logCount (snd (rotateLogFile rename_refused ((running five_rows)\<lparr>logCount := 5\<rparr>))) = 0 \<and>
   files (snd (rotateLogFile rename_refused ((running five_rows)\<lparr>logCount := 5\<rparr>))) data_csv =
     Some (CSV_HEADER @ CRLF) \<and>
   logCount (snd (rotateLogFile quiet_hw cooling_down)) = 7"
proof -
  let ?s = "(running five_rows)\<lparr>logCount := 5\<rparr>"
  have ok: "rotateLogFile rename_refused ?s = (True, snd (rotateLogFile rename_refused ?s))"
    using run_rotate by (simp add: prod_eq_iff)
  have ex: "\<forall>n. \<not> sd_fault rename_refused (EvExists data_csv) n"
    and rm: "\<forall>n. \<not> sd_fault rename_refused (EvRemove data_csv) n"
    by (simp_all add: rename_refused_def)
  have no: "\<not> fst (rotateLogFile quiet_hw cooling_down)"
    by (simp add: rotateLogFile_def reinitSD_def cooling_down_def running_def power_on_def
        SD_RETRY_INTERVAL_def)
  then have bad: "rotateLogFile quiet_hw cooling_down = (False, snd (rotateLogFile quiet_hw cooling_down))"
    by (simp add: prod_eq_iff)
  have seven: "logCount cooling_down = 7" by (simp add: cooling_down_def)
  show ?thesis
    using rotate_resets_on_success [OF ok] rotate_resets_on_success [OF bad] ex rm seven
    by simp
qed


text \<open>
  C2 as stated fails: during the cool-down after a lost card, rotateLogFile returns false
  at once; the file keeps its five rows and logCount stays 7.
\<close>

theorem rotate_aborts_counterexample:
  "fst (rotateLogFile quiet_hw cooling_down) = False \<and>
   logCount (snd (rotateLogFile quiet_hw cooling_down)) = 7 \<and>
   files (snd (rotateLogFile quiet_hw cooling_down)) data_csv = Some five_rows \<and>
   five_rows \<noteq> CSV_HEADER @ CRLF"
  by (simp add: rotateLogFile_def reinitSD_def cooling_down_def running_def power_on_def
      SD_RETRY_INTERVAL_def five_rows_def sample_row_def)


end
